theory Spec2Isabelle
  imports Complex_Main "HOL-Library.Word" "HOL-Library.AList"
begin

section \<open>Strings of the Go standard library\<close>

text \<open>
  A Go string is a sequence of bytes; \<^typ>\<open>string\<close> is a list of 8-bit characters, so
  indices and lengths count the same things. \<open>strings.HasPrefix s p\<close> is
  \<open>len(s) >= len(p) && s[:len(p)] == p\<close>.
\<close>

definition HasPrefix :: "string \<Rightarrow> string \<Rightarrow> bool" where
  "HasPrefix s p = (length p \<le> length s \<and> take (length p) s = p)"

text \<open>\<open>strings.Contains s sub\<close>: \<open>sub\<close> starts at some index of \<open>s\<close>.\<close>

fun Contains :: "string \<Rightarrow> string \<Rightarrow> bool" where
  "Contains [] sub = (sub = [])"
| "Contains (c # cs) sub = (HasPrefix (c # cs) sub \<or> Contains cs sub)"

text \<open>
  White space as \<open>strings.Fields\<close> and \<open>strings.TrimSpace\<close> see it on ASCII text:
  tab, line feed, vertical tab, form feed, carriage return and space.
\<close>

definition isSpace :: "char \<Rightarrow> bool" where
  "isSpace c = (c \<in> {CHR 0x09, CHR 0x0A, CHR 0x0B, CHR 0x0C, CHR 0x0D, CHR 0x20})"

text \<open>
  \<open>strings.Fields\<close>: the maximal runs of non-space bytes, in order. \<open>FieldsAcc cur s\<close>
  scans \<open>s\<close> with the field under construction \<open>cur\<close>.
\<close>

fun FieldsAcc :: "string \<Rightarrow> string \<Rightarrow> string list" where
  "FieldsAcc cur [] = (if cur = [] then [] else [cur])"
| "FieldsAcc cur (c # cs) =
     (if isSpace c then (if cur = [] then FieldsAcc [] cs else cur # FieldsAcc [] cs)
      else FieldsAcc (cur @ [c]) cs)"

definition Fields :: "string \<Rightarrow> string list" where
  "Fields s = FieldsAcc [] s"

definition TrimSpace :: "string \<Rightarrow> string" where
  "TrimSpace s = rev (dropWhile isSpace (rev (dropWhile isSpace s)))"

text \<open>\<open>strings.ToLower\<close> on ASCII letters.\<close>

definition toLowerChar :: "char \<Rightarrow> char" where
  "toLowerChar c =
     (case map_of (zip ''ABCDEFGHIJKLMNOPQRSTUVWXYZ'' ''abcdefghijklmnopqrstuvwxyz'') c of
        Some l \<Rightarrow> l
      | None \<Rightarrow> c)"

definition ToLower :: "string \<Rightarrow> string" where
  "ToLower s = map toLowerChar s"

text \<open>\<open>fmt.Sprintf("%d", n)\<close>: the decimal digits, with a minus sign below zero.\<close>

fun decimal :: "nat \<Rightarrow> string" where
  "decimal n =
     (if n < 10 then [''0123456789'' ! n]
      else decimal (n div 10) @ [''0123456789'' ! (n mod 10)])"

definition Sprintf_d :: "int \<Rightarrow> string" where
  "Sprintf_d i = (if i < 0 then CHR ''-'' # decimal (nat (- i)) else decimal (nat i))"

section \<open>The data model (pkg/disk/types.go)\<close>

datatype DiskType =
    TypePhysical | TypeLVM | TypeLoop | TypeBind | TypeNetwork
  | TypeFUSE | TypePath | TypeManual | TypeSymlink

type_synonym uint64 = "64 word"

record Disk =
  Path :: string
  Filesystem :: string
  Size :: uint64
  Available :: uint64
  Used :: uint64
  MountPoint :: string
  Type :: DiskType
  IsSymlink :: bool
  LinkTarget :: string
  Inode :: uint64
  Device :: string
  LastCheck :: nat

text \<open>
  \<open>Manager\<close>: the registry. \<open>scanCache\<close> is a \<open>map[string]bool\<close>, where a missing key
  reads as \<open>false\<close>.
\<close>

record Manager =
  disks :: "Disk list"
  lastScan :: nat
  scanCache :: "string \<Rightarrow> bool"

definition NewManager :: Manager where
  "NewManager = \<lparr>disks = [], lastScan = 0, scanCache = (\<lambda>_. False)\<rparr>"

definition GetDisks :: "Manager \<Rightarrow> Disk list" where
  "GetDisks m = disks m"

definition AddDisk :: "Manager \<Rightarrow> Disk \<Rightarrow> Manager" where
  "AddDisk m disk = m\<lparr>disks := disks m @ [disk]\<rparr>"

definition ClearDisks :: "Manager \<Rightarrow> Manager" where
  "ClearDisks m = m\<lparr>disks := [], scanCache := (\<lambda>_. False)\<rparr>"

section \<open>Classification (determineDiskType)\<close>

text \<open>
  The Go function returns a \<open>DiskType\<close> string, the empty string when no case matches;
  \<open>None\<close> stands for the empty string. The cases are tried in the order of the
  \<open>switch\<close>.
\<close>

definition determineDiskType :: "string \<Rightarrow> string \<Rightarrow> string \<Rightarrow> DiskType option" where
  "determineDiskType device filesystem options =
     (if Contains options ''bind'' then Some TypeBind
      else if HasPrefix device ''/dev/loop'' then Some TypeLoop
      else if HasPrefix device ''/dev/mapper/'' then Some TypeLVM
      else if HasPrefix device ''/dev/'' then Some TypePhysical
      else if filesystem = ''nfs'' \<or> filesystem = ''nfs4'' \<or> filesystem = ''cifs''
              \<or> filesystem = ''smb'' then Some TypeNetwork
      else if filesystem = ''fuse'' \<or> Contains filesystem ''fuse'' then Some TypeFUSE
      else if HasPrefix device ''/'' \<and> \<not> HasPrefix device ''/dev/'' then Some TypePath
      else None)"

section \<open>Base device name (getBaseDiskName)\<close>

text \<open>
  The loop \<open>for i := len(path) - 1; i >= 0; i--\<close>: \<open>stripLoop path k base\<close> is the loop
  about to run with \<open>i = k - 1\<close> (it has ended when \<open>k = 0\<close>). A digit at \<open>i\<close> cuts
  \<open>base\<close> to \<open>path[:i]\<close>; any other byte breaks out.
\<close>

definition isDigit :: "char \<Rightarrow> bool" where
  "isDigit c = ((48::nat) \<le> of_char c \<and> of_char c \<le> (57::nat))"

fun stripLoop :: "string \<Rightarrow> nat \<Rightarrow> string \<Rightarrow> string" where
  "stripLoop path 0 base = base"
| "stripLoop path (Suc i) base =
     (if isDigit (path ! i) then stripLoop path i (take i path) else base)"

definition getBaseDiskName :: "string \<Rightarrow> string" where
  "getBaseDiskName path = stripLoop path (length path) path"

section \<open>Drive groups (GroupDisks)\<close>

text \<open>
  \<open>DriveGroup\<close>. Its fields \<open>Type\<close> and \<open>Available\<close> are \<open>GroupType\<close> and
  \<open>GroupAvailable\<close> here, since \<open>Disk\<close> has fields of the same names.
\<close>

record DriveGroup =
  Name :: string
  Icon :: string
  GroupType :: string
  TotalSize :: uint64
  TotalUsed :: uint64
  GroupAvailable :: uint64
  Disks :: "Disk list"
  IsPrimary :: bool
  Description :: string

text \<open>The icons are the UTF-8 bytes of the source's string literals.\<close>

definition iconSystem :: string where
  "iconSystem = [CHR 0xF0, CHR 0x9F, CHR 0x92, CHR 0xBB]"

definition iconNetwork :: string where
  "iconNetwork = [CHR 0xF0, CHR 0x9F, CHR 0x8C, CHR 0x90]"

definition iconSSD :: string where
  "iconSSD = [CHR 0xE2, CHR 0x9A, CHR 0xA1]"

definition iconLVM :: string where
  "iconLVM = [CHR 0xF0, CHR 0x9F, CHR 0x97, CHR 0x84, CHR 0xEF, CHR 0xB8, CHR 0x8F]"

definition iconHDD :: string where
  "iconHDD = [CHR 0xF0, CHR 0x9F, CHR 0x92, CHR 0xBE]"

definition getDriveName :: "Disk \<Rightarrow> int \<Rightarrow> string" where
  "getDriveName disk index =
     (if Contains (MountPoint disk) ''home'' then ''Home Drive''
      else if Contains (MountPoint disk) ''data'' then ''Data Drive''
      else if Contains (MountPoint disk) ''backup'' then ''Backup Drive''
      else if Contains (MountPoint disk) ''media'' then ''Media Drive''
      else if Type disk = TypeLVM then ''Volume '' @ Sprintf_d index
      else if HasPrefix (Path disk) ''/dev/nvme'' then ''SSD Drive '' @ Sprintf_d index
      else if HasPrefix (Path disk) ''/dev/sd'' then ''Drive '' @ Sprintf_d index
      else ''Storage '' @ Sprintf_d index)"

definition getDriveIcon :: "Disk \<Rightarrow> string" where
  "getDriveIcon disk =
     (if HasPrefix (Path disk) ''/dev/nvme'' then iconSSD
      else if Type disk = TypeNetwork then iconNetwork
      else if Type disk = TypeLVM then iconLVM
      else iconHDD)"

definition getDriveDescription :: "Disk \<Rightarrow> string" where
  "getDriveDescription disk =
     (if HasPrefix (Path disk) ''/dev/nvme'' then ''NVMe SSD''
      else if Type disk = TypeLVM then ''Logical Volume''
      else if HasPrefix (Path disk) ''/dev/sd'' then ''Hard Drive''
      else ''Storage Device'')"

text \<open>\<open>strings.Split s "/"\<close>: the pieces between the slashes, empty pieces kept.\<close>

fun SplitSlash :: "string \<Rightarrow> string list" where
  "SplitSlash [] = [[]]"
| "SplitSlash (c # cs) =
     (if c = CHR ''/'' then [] # SplitSlash cs
      else (case SplitSlash cs of [] \<Rightarrow> [[c]] | p # ps \<Rightarrow> (c # p) # ps))"

definition getNetworkDriveName :: "Disk \<Rightarrow> string" where
  "getNetworkDriveName disk =
     (if Type disk = TypeNetwork then
        (let parts = SplitSlash (Path disk)
         in if length parts > 2 then ''Network ('' @ parts ! 2 @ '')'' else ''Network Drive'')
      else ''Remote Storage'')"

text \<open>
  The inner loop of the system group: every disk of the whole slice whose mount point
  starts with \<open>/boot\<close> joins the group; size and used are added, available is not.
  \<open>grouped\<close> is the \<open>map[string]bool\<close> keyed by \<open>disk.Path\<close>.
\<close>

definition bootStep ::
  "Disk \<Rightarrow> DriveGroup \<times> (string \<Rightarrow> bool) \<Rightarrow> DriveGroup \<times> (string \<Rightarrow> bool)" where
  "bootStep d st =
     (case st of (g, grouped) \<Rightarrow>
        if HasPrefix (MountPoint d) ''/boot'' then
          (g\<lparr>Disks := Disks g @ [d],
             TotalSize := TotalSize g + Size d,
             TotalUsed := TotalUsed g + Used d\<rparr>,
           grouped(Path d := True))
        else (g, grouped))"

definition systemSeed :: "Disk \<Rightarrow> DriveGroup" where
  "systemSeed disk =
     \<lparr>Name = ''System Drive'', Icon = iconSystem, GroupType = ''system'',
      TotalSize = Size disk, TotalUsed = Used disk, GroupAvailable = Available disk,
      Disks = [disk], IsPrimary = True, Description = ''Linux System''\<rparr>"

text \<open>
  The outer loop: the first disk mounted at \<open>/\<close> seeds the group, the inner loop runs
  over all disks, and \<open>break\<close> ends the search. The first argument is the whole slice,
  the second what is left of the iteration.
\<close>

fun systemLoop :: "Disk list \<Rightarrow> Disk list \<Rightarrow> DriveGroup option \<times> (string \<Rightarrow> bool)" where
  "systemLoop all [] = (None, (\<lambda>_. False))"
| "systemLoop all (disk # rest) =
     (if MountPoint disk = ''/'' then
        (case fold bootStep all (systemSeed disk, (\<lambda>_. False)(Path disk := True)) of
           (g, grouped) \<Rightarrow> (Some g, grouped))
      else systemLoop all rest)"

text \<open>
  One iteration of the data loop. \<open>physicalDisks\<close> is a \<open>map[string]*DriveGroup\<close>; it is
  kept as an association list in order of insertion (\<open>AList.update\<close> replaces the value
  of a key in place and appends a new key). \<open>dataGroups\<close> is the slice of that name, whose
  length numbers a new group.
\<close>

definition dataSeed :: "DriveGroup list \<Rightarrow> Disk \<Rightarrow> DriveGroup" where
  "dataSeed dataGroups disk =
     \<lparr>Name = getDriveName disk (int (length dataGroups) + 1), Icon = getDriveIcon disk,
      GroupType = ''data'',
      TotalSize = Size disk, TotalUsed = Used disk, GroupAvailable = Available disk,
      Disks = [disk], IsPrimary = False, Description = getDriveDescription disk\<rparr>"

definition dataStep ::
  "DriveGroup list \<Rightarrow> Disk \<Rightarrow> (string \<Rightarrow> bool) \<times> (string \<times> DriveGroup) list
     \<Rightarrow> (string \<Rightarrow> bool) \<times> (string \<times> DriveGroup) list" where
  "dataStep dataGroups disk st =
     (case st of (grouped, physicalDisks) \<Rightarrow>
        if grouped (Path disk) \<or> Type disk = TypeLoop
           \<or> HasPrefix (MountPoint disk) ''/snap''
           \<or> HasPrefix (MountPoint disk) ''/run''
           \<or> HasPrefix (MountPoint disk) ''/sys''
           \<or> HasPrefix (MountPoint disk) ''/proc'' then st
        else if Size disk < 1024 * 1024 * 1024 then st
        else
          (let baseName = getBaseDiskName (Path disk)
           in (grouped(Path disk := True),
               (case map_of physicalDisks baseName of
                  Some grp \<Rightarrow>
                    AList.update baseName
                      (grp\<lparr>Disks := Disks grp @ [disk],
                             TotalSize := TotalSize grp + Size disk,
                             TotalUsed := TotalUsed grp + Used disk,
                             GroupAvailable := GroupAvailable grp + Available disk\<rparr>)
                      physicalDisks
                | None \<Rightarrow> AList.update baseName (dataSeed dataGroups disk) physicalDisks))))"

definition networkSeed :: "Disk \<Rightarrow> DriveGroup" where
  "networkSeed disk =
     \<lparr>Name = getNetworkDriveName disk, Icon = iconNetwork, GroupType = ''network'',
      TotalSize = Size disk, TotalUsed = Used disk, GroupAvailable = Available disk,
      Disks = [disk], IsPrimary = False, Description = ''Network Storage''\<rparr>"

definition networkStep :: "(string \<Rightarrow> bool) \<Rightarrow> Disk \<Rightarrow> DriveGroup list \<Rightarrow> DriveGroup list" where
  "networkStep grouped disk removableGroups =
     (if grouped (Path disk) then removableGroups
      else if Type disk = TypeNetwork \<or> Type disk = TypeFUSE
        then removableGroups @ [networkSeed disk]
      else removableGroups)"

text \<open>
  \<open>GroupDisks\<close>. Go ranges over the map \<open>physicalDisks\<close> in an order it does not fix;
  the model lists the data groups in order of insertion, and the theorems below speak of
  the members of the result, not of their positions.
\<close>

definition GroupDisks :: "Disk list \<Rightarrow> DriveGroup list" where
  "GroupDisks ds =
     (let dataGroups0 = [] :: DriveGroup list;
          (systemGroup, grouped1) = systemLoop ds ds;
          (grouped2, physicalDisks) = fold (dataStep dataGroups0) ds (grouped1, []);
          dataGroups = dataGroups0 @ map snd physicalDisks;
          removableGroups = fold (networkStep grouped2) ds []
      in (case systemGroup of None \<Rightarrow> [] | Some g \<Rightarrow> [g]) @ dataGroups @ removableGroups)"

section \<open>Scanning the mount table (ScanDisks, analyzeDisk)\<close>

text \<open>
  What the scan asks of the operating system is a parameter: \<open>syscall.Statfs\<close>,
  \<open>os.Lstat\<close>, \<open>os.Stat\<close> and \<open>filepath.EvalSymlinks\<close> answer \<open>None\<close> where the call
  returns an error. \<open>Bsize\<close> is the block size after its conversion to \<open>uint64\<close>.
  \<open>Ino\<close> is \<open>None\<close> where \<open>info.Sys()\<close> is not a \<open>*syscall.Stat_t\<close>.
\<close>

record Statfs_t =
  Blocks :: uint64
  Bfree :: uint64
  Bavail :: uint64
  Bsize :: uint64

record FileInfo =
  ModeSymlink :: bool
  Ino :: "uint64 option"

record DiskOS =
  Statfs :: "string \<Rightarrow> Statfs_t option"
  Lstat :: "string \<Rightarrow> FileInfo option"
  Stat :: "string \<Rightarrow> FileInfo option"
  EvalSymlinks :: "string \<Rightarrow> string option"
  Now :: nat

definition virtualFS :: "string list" where
  "virtualFS =
     [''tmpfs'', ''devtmpfs'', ''sysfs'', ''proc'', ''cgroup'', ''cgroup2'', ''debugfs'',
      ''securityfs'', ''pstore'', ''efivarfs'', ''bpf'', ''tracefs'', ''hugetlbfs'',
      ''mqueue'', ''configfs'', ''ramfs'', ''autofs'', ''fusectl'']"

definition analyzeDisk ::
  "DiskOS \<Rightarrow> string \<Rightarrow> string \<Rightarrow> string \<Rightarrow> string \<Rightarrow> Disk option" where
  "analyzeDisk os device mountPoint filesystem options =
     (case determineDiskType device filesystem options of
        None \<Rightarrow> None
      | Some diskType \<Rightarrow>
          (case Statfs os mountPoint of
             None \<Rightarrow> None
           | Some stat \<Rightarrow>
               (let disk0 =
                      \<lparr>Path = device, Filesystem = filesystem,
                       Size = Blocks stat * Bsize stat,
                       Available = Bavail stat * Bsize stat,
                       Used = (Blocks stat - Bfree stat) * Bsize stat,
                       MountPoint = mountPoint, Type = diskType,
                       IsSymlink = False, LinkTarget = [], Inode = 0,
                       Device = device, LastCheck = Now os\<rparr>;
                    disk1 =
                      (case Lstat os device of
                         None \<Rightarrow> disk0
                       | Some info \<Rightarrow>
                           (let d1 =
                                  (if ModeSymlink info then
                                     (case EvalSymlinks os device of
                                        None \<Rightarrow> disk0\<lparr>IsSymlink := True\<rparr>
                                      | Some target \<Rightarrow>
                                          disk0\<lparr>IsSymlink := True, LinkTarget := target\<rparr>)
                                   else disk0)
                            in (case Ino info of None \<Rightarrow> d1 | Some i \<Rightarrow> d1\<lparr>Inode := i\<rparr>)));
                    disk2 =
                      (if Inode disk1 = 0 then
                         (case Stat os mountPoint of
                            None \<Rightarrow> disk1
                          | Some info \<Rightarrow>
                              (case Ino info of None \<Rightarrow> disk1 | Some i \<Rightarrow> disk1\<lparr>Inode := i\<rparr>))
                       else disk1)
                in Some disk2)))"

text \<open>
  One iteration of the scanner loop on a line of \<open>/proc/mounts\<close>. \<open>seenMounts\<close> is set
  before the filesystem is looked up in \<open>virtualFS\<close> and before the disk is analysed.
\<close>

definition scanStep ::
  "DiskOS \<Rightarrow> string \<Rightarrow> (string \<Rightarrow> bool) \<times> Disk list \<Rightarrow> (string \<Rightarrow> bool) \<times> Disk list" where
  "scanStep os line st =
     (case st of (seenMounts, ds) \<Rightarrow>
        if line = [] then st
        else
          (let fields = Fields line
           in if length fields < 4 then st
              else
                (let device = fields ! 0; mountPoint = fields ! 1;
                     filesystem = fields ! 2; options = fields ! 3
                 in if seenMounts mountPoint then st
                    else
                      (let seenMounts' = seenMounts(mountPoint := True)
                       in if filesystem \<in> set virtualFS then (seenMounts', ds)
                          else
                            (case analyzeDisk os device mountPoint filesystem options of
                               None \<Rightarrow> (seenMounts', ds)
                             | Some disk \<Rightarrow> (seenMounts', ds @ [disk]))))))"

text \<open>\<open>scanSymlinks\<close> returns at once; \<open>walkDir\<close> is never called.\<close>

definition scanSymlinks :: "Manager \<Rightarrow> Manager" where
  "scanSymlinks m = m"

text \<open>
  The mount table as the scan meets it: \<open>os.Open\<close> fails, or the scanner delivers some
  lines and then ends, with or without an error of its own.
\<close>

datatype MountsFile = OpenFails | Opened "string list" bool

datatype ScanError = ErrOpenMounts | ErrReadMounts

definition ScanDisks :: "DiskOS \<Rightarrow> MountsFile \<Rightarrow> Manager \<Rightarrow> ScanError option \<times> Manager" where
  "ScanDisks os file m =
     (let m1 = m\<lparr>lastScan := Now os\<rparr>
      in (case file of
            OpenFails \<Rightarrow> (Some ErrOpenMounts, m1)
          | Opened lines readError \<Rightarrow>
              (let (seenMounts, ds) = fold (scanStep os) lines ((\<lambda>_. False), disks m1);
                   m2 = m1\<lparr>disks := ds\<rparr>
               in if readError then (Some ErrReadMounts, m2) else (None, scanSymlinks m2))))"

text \<open>
  The reading of the mount table in the words of the specification: a record is a line of
  at least four fields (device, mount point, filesystem type, options); of the records
  that share a mount point only the first is kept; the kept records of a virtual
  filesystem are skipped and the others analysed.
\<close>

definition mountRecords :: "string list \<Rightarrow> string list list" where
  "mountRecords lines = filter (\<lambda>fields. 4 \<le> length fields) (map Fields lines)"

fun firstPerMountPoint :: "string list list \<Rightarrow> string list list" where
  "firstPerMountPoint [] = []"
| "firstPerMountPoint (r # rs) = r # firstPerMountPoint (filter (\<lambda>r'. r' ! 1 \<noteq> r ! 1) rs)"

definition analyzeRecord :: "DiskOS \<Rightarrow> string list \<Rightarrow> Disk option" where
  "analyzeRecord os r =
     (if r ! 2 \<in> set virtualFS then None else analyzeDisk os (r ! 0) (r ! 1) (r ! 2) (r ! 3))"

section \<open>Statistics (GetStats, GetSummary)\<close>

record SymlinkInfo =
  Source :: string
  Target :: string

text \<open>
  \<open>DiskStats\<close>. Its fields \<open>TotalSize\<close> and \<open>TotalUsed\<close> are \<open>StatsTotalSize\<close> and
  \<open>StatsTotalUsed\<close> here, since \<open>DriveGroup\<close> has fields of the same names. The two Go
  maps are partial functions.
\<close>

record DiskStats =
  TotalDisks :: int
  StatsTotalSize :: uint64
  TotalAvailable :: uint64
  StatsTotalUsed :: uint64
  DisksByType :: "DiskType \<rightharpoonup> int"
  Hardlinks :: "uint64 \<rightharpoonup> string list"
  Symlinks :: "SymlinkInfo list"

definition statsStep :: "Disk \<Rightarrow> DiskStats \<Rightarrow> DiskStats" where
  "statsStep disk stats =
     (let s1 = stats\<lparr>DisksByType := (DisksByType stats)
                 (Type disk \<mapsto> (case DisksByType stats (Type disk) of None \<Rightarrow> 0 | Some n \<Rightarrow> n) + 1)\<rparr>;
          s2 = (if Type disk \<noteq> TypeSymlink then
                  s1\<lparr>StatsTotalSize := StatsTotalSize s1 + Size disk,
                     TotalAvailable := TotalAvailable s1 + Available disk,
                     StatsTotalUsed := StatsTotalUsed s1 + Used disk\<rparr>
                else s1);
          s3 = (if Inode disk > 0 \<and> Type disk \<noteq> TypeSymlink then
                  s2\<lparr>Hardlinks := (Hardlinks s2)
                       (Inode disk \<mapsto>
                          (case Hardlinks s2 (Inode disk) of None \<Rightarrow> [] | Some paths \<Rightarrow> paths)
                            @ [Path disk])\<rparr>
                else s2)
      in if IsSymlink disk \<and> LinkTarget disk \<noteq> [] then
           s3\<lparr>Symlinks := Symlinks s3 @ [\<lparr>Source = Path disk, Target = LinkTarget disk\<rparr>]\<rparr>
         else s3)"

text \<open>The clean-up loop deletes every key whose slice has at most one path.\<close>

definition cleanHardlinks :: "(uint64 \<rightharpoonup> string list) \<Rightarrow> (uint64 \<rightharpoonup> string list)" where
  "cleanHardlinks h =
     (\<lambda>inode. case h inode of
                None \<Rightarrow> None
              | Some paths \<Rightarrow> if length paths \<le> 1 then None else Some paths)"

definition GetStats :: "Manager \<Rightarrow> DiskStats" where
  "GetStats m =
     (let stats0 = \<lparr>TotalDisks = int (length (disks m)), StatsTotalSize = 0,
                    TotalAvailable = 0, StatsTotalUsed = 0, DisksByType = Map.empty,
                    Hardlinks = Map.empty, Symlinks = []\<rparr>;
          stats = fold statsStep (disks m) stats0
      in stats\<lparr>Hardlinks := cleanHardlinks (Hardlinks stats)\<rparr>)"

text \<open>
  The percentage that \<open>GetSummary\<close> prints is the \<open>float64\<close> expression
  \<open>float64(s.TotalUsed)/float64(s.TotalSize)*100\<close>. A \<open>float64\<close> is a real number
  (one that the binary64 format represents), an infinity or NaN. Go does not panic on a
  floating-point division by zero: it yields the special values of IEEE 754. The two
  zeros are not told apart: zero stands for the positive zero, the only one that the
  conversion of an unsigned integer gives.
\<close>

datatype float64 = Finite real | PosInf | NegInf | NaN

definition signedInf :: "bool \<Rightarrow> float64" where
  "signedInf negative = (if negative then NegInf else PosInf)"

text \<open>The power of two with an integer exponent.\<close>

definition pow2 :: "int \<Rightarrow> real" where
  "pow2 e = (if 0 \<le> e then 2 ^ nat e else 1 / 2 ^ nat (- e))"

text \<open>
  The binary exponent of a positive number, not below that of the subnormal numbers:
  \<open>normExp k m e\<close> halves or doubles \<open>m\<close>, counting in \<open>e\<close>, until \<open>1 \<le> m < 2\<close> or
  \<open>e = -1022\<close>, in at most \<open>k\<close> steps. Below \<open>2 ^ 1024\<close> fewer than 1100 steps are
  needed (lemma \<open>exponent_normal\<close>).
\<close>

fun normExp :: "nat \<Rightarrow> real \<Rightarrow> int \<Rightarrow> int" where
  "normExp k m e =
     (if k = 0 then e
      else if 2 \<le> m then normExp (k - 1) (m / 2) (e + 1)
      else if m < 1 \<and> - 1022 < e then normExp (k - 1) (m * 2) (e - 1)
      else e)"

declare normExp.simps [simp del]

definition exponent :: "real \<Rightarrow> int" where
  "exponent a = normExp 1100 a 0"

text \<open>The nearest integer, the even one of the two when they are equally near.\<close>

definition roundEven :: "real \<Rightarrow> int" where
  "roundEven r =
     (let f = \<lfloor>r\<rfloor>; d = r - of_int f
      in if d < 1 / 2 then f
         else if 1 / 2 < d then f + 1
         else if even f then f else f + 1)"

text \<open>
  Rounding to nearest, ties to even, in binary64: a significand of 53 bits, so the
  representable numbers around \<open>a\<close> are the multiples of \<open>2 ^ (exponent a - 52)\<close>; a
  result of \<open>2 ^ 1024\<close> or more is an infinity. Every operation below rounds its exact
  result so.
\<close>

definition round64 :: "real \<Rightarrow> float64" where
  "round64 x =
     (if x = 0 then Finite 0
      else
        (let a = \<bar>x\<bar>
         in if 2 ^ 1024 \<le> a then signedInf (x < 0)
            else
              (let u = pow2 (exponent a - 52);
                   y = of_int (roundEven (a / u)) * u
               in if 2 ^ 1024 \<le> y then signedInf (x < 0)
                  else Finite (if x < 0 then - y else y))))"

text \<open>The conversion \<open>float64(w)\<close> of a \<open>uint64\<close>.\<close>

definition float64_of_uint64 :: "uint64 \<Rightarrow> float64" where
  "float64_of_uint64 w = round64 (of_int (uint w))"

fun fdiv :: "float64 \<Rightarrow> float64 \<Rightarrow> float64" where
  "fdiv NaN _ = NaN"
| "fdiv _ NaN = NaN"
| "fdiv (Finite a) (Finite b) =
     (if b = 0 then (if a = 0 then NaN else signedInf (a < 0)) else round64 (a / b))"
| "fdiv (Finite a) PosInf = Finite 0"
| "fdiv (Finite a) NegInf = Finite 0"
| "fdiv PosInf (Finite b) = signedInf (b < 0)"
| "fdiv NegInf (Finite b) = signedInf (\<not> b < 0)"
| "fdiv _ _ = NaN"

fun fmul :: "float64 \<Rightarrow> float64 \<Rightarrow> float64" where
  "fmul NaN _ = NaN"
| "fmul _ NaN = NaN"
| "fmul (Finite a) (Finite b) = round64 (a * b)"
| "fmul (Finite a) PosInf = (if a = 0 then NaN else signedInf (a < 0))"
| "fmul (Finite a) NegInf = (if a = 0 then NaN else signedInf (\<not> a < 0))"
| "fmul PosInf (Finite b) = (if b = 0 then NaN else signedInf (b < 0))"
| "fmul NegInf (Finite b) = (if b = 0 then NaN else signedInf (\<not> b < 0))"
| "fmul PosInf PosInf = PosInf"
| "fmul NegInf NegInf = PosInf"
| "fmul _ _ = NegInf"

definition usedPercent :: "DiskStats \<Rightarrow> float64" where
  "usedPercent s =
     fmul (fdiv (float64_of_uint64 (StatsTotalUsed s)) (float64_of_uint64 (StatsTotalSize s)))
          (Finite 100)"

section \<open>Running a command (ExecuteCommand)\<close>

text \<open>
  \<open>exec.Cmd\<close> with the fields the installer sets: the argument vector (the program name
  first), the working directory (empty: that of the caller) and the environment
  (\<open>None\<close> is Go's \<open>nil\<close>: the child inherits the environment of the caller).
\<close>

record Cmd =
  Args :: "string list"
  Dir :: string
  Env :: "string list option"

definition Command :: "string \<Rightarrow> string list \<Rightarrow> Cmd" where
  "Command name arg = \<lparr>Args = name # arg, Dir = [], Env = None\<rparr>"

text \<open>
  The error of \<open>cmd.Run()\<close> is an \<open>*exec.ExitError\<close> with the exit code of the child, or
  another error (the program was not found, could not be started, ...).
\<close>

datatype RunError = ExitError int | OtherError

datatype ExecError =
    ErrEmptyCommand
  | ErrNoWritePermission string
  | ErrRun RunError
  | ErrCancelled
  | ErrIndexOutOfRange

text \<open>
  What the installer does to the world, in order: it waits for a line of input, creates
  the test file (with or without success), removes it, runs a child. What is printed is
  left out.
\<close>

datatype Event = Scanln | CreateFile string bool | RemoveFile string | Run Cmd

text \<open>
  The world the installer runs in: \<open>os.Environ()\<close>, \<open>os.Getenv\<close>, \<open>os.Getpid()\<close>,
  whether \<open>os.Create\<close> succeeds on a path, what the \<open>n\<close>-th child run returns
  (\<open>None\<close>: no error), and the word that \<open>fmt.Scanln(&response)\<close> reads at the prompt.
\<close>

record ProcOS =
  Environ :: "string list"
  Getenv :: "string \<Rightarrow> string"
  Getpid :: int
  CreateOK :: "string \<Rightarrow> bool"
  RunResult :: "nat \<Rightarrow> Cmd \<Rightarrow> RunError option"
  Response :: string

definition testFileName :: "ProcOS \<Rightarrow> string \<Rightarrow> string" where
  "testFileName w path = path @ ''/.checkpoint_test_'' @ Sprintf_d (Getpid w)"

definition canWrite :: "ProcOS \<Rightarrow> string \<Rightarrow> bool \<times> Event list" where
  "canWrite w path =
     (let testFile = testFileName w path
      in if \<not> CreateOK w testFile then (False, [CreateFile testFile False])
         else (True, [CreateFile testFile True, RemoveFile testFile]))"

definition isPermissionError :: "string \<Rightarrow> RunError \<Rightarrow> bool" where
  "isPermissionError command err =
     (case err of
        ExitError code \<Rightarrow>
          if code = 100 then True
          else if (code = 1 \<or> code = 2)
                  \<and> (Contains command ''apt'' \<or> Contains command ''dpkg''
                     \<or> Contains command ''yum'' \<or> Contains command ''dnf''
                     \<or> Contains command ''pacman'' \<or> Contains command ''zypper'') then True
          else False
      | OtherError \<Rightarrow> False)"

text \<open>
  \<open>promptForSudo\<close>: the retry runs a fresh \<open>exec.Command\<close>, with neither \<open>Dir\<close> nor
  \<open>Env\<close> set. \<open>parts[0]\<close> on an empty slice would panic.
\<close>

definition promptForSudo :: "ProcOS \<Rightarrow> string \<Rightarrow> Disk option \<Rightarrow> ExecError option \<times> Event list" where
  "promptForSudo w command targetDisk =
     (let response = ToLower (TrimSpace (Response w))
      in if response = ''yes'' \<or> response = ''y'' then
           (let command' = (if \<not> HasPrefix command ''sudo '' then ''sudo '' @ command else command)
            in (case Fields command' of
                  [] \<Rightarrow> (Some ErrIndexOutOfRange, [Scanln])
                | name # arg \<Rightarrow>
                    (let cmd = Command name arg
                     in (map_option ErrRun (RunResult w 1 cmd), [Scanln, Run cmd]))))
         else (Some ErrCancelled, [Scanln]))"

text \<open>
  The part of \<open>ExecuteCommand\<close> between \<open>exec.Command\<close> and \<open>cmd.Run()\<close>: with a target
  disk, the write probe, and then the working directory and the environment of the child.
\<close>

definition targetCmd :: "ProcOS \<Rightarrow> Cmd \<Rightarrow> Disk option \<Rightarrow> (ExecError + Cmd) \<times> Event list" where
  "targetCmd w cmd targetDisk =
     (case targetDisk of
        None \<Rightarrow> (Inr cmd, [])
      | Some d \<Rightarrow>
          (case canWrite w (MountPoint d) of
             (ok, evs) \<Rightarrow>
               if \<not> ok then (Inl (ErrNoWritePermission (MountPoint d)), evs)
               else
                 (let env = Environ w
                        @ [''PREFIX='' @ Getenv w ''HOME'' @ ''/.local'',
                           ''DESTDIR='' @ MountPoint d,
                           ''INSTALL_ROOT='' @ MountPoint d]
                  in (Inr (cmd\<lparr>Dir := MountPoint d, Env := Some env\<rparr>), evs))))"

definition ExecuteCommand :: "ProcOS \<Rightarrow> string \<Rightarrow> Disk option \<Rightarrow> ExecError option \<times> Event list" where
  "ExecuteCommand w command targetDisk =
     (let evs0 = (if Contains command ''sudo'' then [Scanln] else [])
      in (case Fields command of
            [] \<Rightarrow> (Some ErrEmptyCommand, evs0)
          | name # arg \<Rightarrow>
              (case targetCmd w (Command name arg) targetDisk of
                 (Inl e, evs1) \<Rightarrow> (Some e, evs0 @ evs1)
               | (Inr cmd, evs1) \<Rightarrow>
                   (case RunResult w 0 cmd of
                      None \<Rightarrow> (None, evs0 @ evs1 @ [Run cmd])
                    | Some err \<Rightarrow>
                        if isPermissionError command err then
                          (case promptForSudo w command targetDisk of
                             (r, evs2) \<Rightarrow> (r, evs0 @ evs1 @ [Run cmd] @ evs2))
                        else (Some (ErrRun err), evs0 @ evs1 @ [Run cmd])))))"

text \<open>The children that were run, in order.\<close>

fun runs :: "Event list \<Rightarrow> Cmd list" where
  "runs [] = []"
| "runs (Run c # es) = c # runs es"
| "runs (_ # es) = runs es"

section \<open>Vocabulary of the specification\<close>

text \<open>The package managers that the permission check knows by name.\<close>

definition packageManagers :: "string list" where
  "packageManagers = [''apt'', ''dpkg'', ''yum'', ''dnf'', ''pacman'', ''zypper'']"

text \<open>The filesystem types that count as network filesystems.\<close>

definition networkFilesystems :: "string list" where
  "networkFilesystems = [''nfs'', ''nfs4'', ''cifs'', ''smb'']"

text \<open>
  The bucket of an inode number in the words of the specification: the paths of the disks
  with a nonzero inode and a type other than symlink that have this inode number, in
  registry order.
\<close>

definition inodeBucket :: "Disk list \<Rightarrow> uint64 \<Rightarrow> string list" where
  "inodeBucket ds inode =
     map Path (filter (\<lambda>d. Inode d > 0 \<and> Type d \<noteq> TypeSymlink \<and> Inode d = inode) ds)"

section \<open>Auxiliary notions\<close>

text \<open>The slice that a Go map of slices yields for a key: \<open>nil\<close> when the key is absent.\<close>

definition pathsOf :: "(uint64 \<rightharpoonup> string list) \<Rightarrow> uint64 \<Rightarrow> string list" where
  "pathsOf h inode = (case h inode of None \<Rightarrow> [] | Some paths \<Rightarrow> paths)"

text \<open>The test of the inner loop of the system group.\<close>

definition isBoot :: "Disk \<Rightarrow> bool" where
  "isBoot d = HasPrefix (MountPoint d) ''/boot''"

text \<open>
  What holds of every group in \<open>physicalDisks\<close> throughout the data loop: it is a data
  group with at least one member, its three totals are the sums over its members (in
  \<open>uint64\<close> arithmetic, as the \<open>+=\<close> of the code), and its name is the one that
  \<open>getDriveName\<close> gives its first member with index 1.
\<close>

definition dataGroupOK :: "DriveGroup \<Rightarrow> bool" where
  "dataGroupOK g =
     (GroupType g = ''data'' \<and> Disks g \<noteq> []
      \<and> TotalSize g = sum_list (map Size (Disks g))
      \<and> TotalUsed g = sum_list (map Used (Disks g))
      \<and> GroupAvailable g = sum_list (map Available (Disks g))
      \<and> Name g = getDriveName (hd (Disks g)) 1)"

text \<open>The events before the command is tokenized: the pause after the sudo warning.\<close>

definition sudoPause :: "string \<Rightarrow> Event list" where
  "sudoPause command = (if Contains command ''sudo'' then [Scanln] else [])"

text \<open>The child that \<open>ExecuteCommand\<close> prepares for a writable target.\<close>

definition targetChild :: "ProcOS \<Rightarrow> string \<Rightarrow> string list \<Rightarrow> Disk \<Rightarrow> Cmd" where
  "targetChild w name arg d =
     \<lparr>Args = name # arg, Dir = MountPoint d,
      Env = Some (Environ w
                  @ [''PREFIX='' @ Getenv w ''HOME'' @ ''/.local'',
                     ''DESTDIR='' @ MountPoint d,
                     ''INSTALL_ROOT='' @ MountPoint d])\<rparr>"

text \<open>The unit roundoff of binary64.\<close>

definition eps64 :: real where
  "eps64 = 1 / 2 ^ 53"

section \<open>Concrete inputs\<close>

text \<open>
  A system in which every mount point has 1000000 blocks of 4096 bytes, 400000 of them
  free and 350000 available to an unprivileged user; device nodes cannot be examined,
  mount points have inode 2.
\<close>

definition exampleOS :: DiskOS where
  "exampleOS =
     \<lparr>Statfs = (\<lambda>_. Some \<lparr>Blocks = 1000000, Bfree = 400000, Bavail = 350000, Bsize = 4096\<rparr>),
      Lstat = (\<lambda>_. None),
      Stat = (\<lambda>_. Some \<lparr>ModeSymlink = False, Ino = Some 2\<rparr>),
      EvalSymlinks = (\<lambda>_. None),
      Now = 0\<rparr>"

text \<open>
  A physical disk of 4096000000 bytes, 2457600000 of them used; and a registry in which
  one device is mounted twice.
\<close>

definition exampleDisk :: "string \<Rightarrow> string \<Rightarrow> uint64 \<Rightarrow> Disk" where
  "exampleDisk device mountPoint inode =
     \<lparr>Path = device, Filesystem = ''ext4'', Size = 4096000000, Available = 1433600000,
      Used = 2457600000, MountPoint = mountPoint, Type = TypePhysical, IsSymlink = False,
      LinkTarget = [], Inode = inode, Device = device, LastCheck = 0\<rparr>"

definition exampleManager :: Manager where
  "exampleManager =
     \<lparr>disks = [exampleDisk ''/dev/sda1'' ''/'' 7, exampleDisk ''/dev/sdb1'' ''/mnt/a'' 9,
               exampleDisk ''/dev/sda1'' ''/srv'' 7],
      lastScan = 0, scanCache = (\<lambda>_. False)\<rparr>"

text \<open>
  A root disk, a boot partition, two partitions of a second device and one of a third.
\<close>

definition exampleDisks :: "Disk list" where
  "exampleDisks =
     [exampleDisk ''/dev/sda1'' ''/'' 7, exampleDisk ''/dev/sda2'' ''/boot'' 8,
      exampleDisk ''/dev/sdb1'' ''/mnt/a'' 9, exampleDisk ''/dev/sdb2'' ''/mnt/b'' 10,
      exampleDisk ''/dev/sdc1'' ''/mnt/c'' 11]"

text \<open>A mount table in which the root mount point occurs twice.\<close>

definition exampleMounts :: "string list" where
  "exampleMounts =
     [''/dev/sda1 / ext4 rw 0 0'', ''/dev/sda2 /boot ext4 rw 0 0'',
      ''tmpfs /run tmpfs rw 0 0'', ''/dev/sdb1 / ext4 rw 0 0'']"

text \<open>
  A process with two inherited variables, home directory \<open>/home/user\<close> and process id
  4242, in which every file can be created and every child succeeds; and the same
  process where no file can be created.
\<close>

definition exampleProc :: ProcOS where
  "exampleProc =
     \<lparr>Environ = [''HOME=/home/user'', ''PATH=/usr/bin''],
      Getenv = (\<lambda>k. if k = ''HOME'' then ''/home/user'' else []),
      Getpid = 4242,
      CreateOK = (\<lambda>_. True),
      RunResult = (\<lambda>_ _. None),
      Response = ''no''\<rparr>"

definition readOnlyProc :: ProcOS where
  "readOnlyProc = exampleProc\<lparr>CreateOK := (\<lambda>_. False)\<rparr>"

text \<open>Statistics with the given total used and total size, of one disk.\<close>

definition exampleStats :: "uint64 \<Rightarrow> uint64 \<Rightarrow> DiskStats" where
  "exampleStats used sz =
     \<lparr>TotalDisks = 1, StatsTotalSize = sz, TotalAvailable = 0, StatsTotalUsed = used,
      DisksByType = [TypePhysical \<mapsto> 1], Hardlinks = Map.empty, Symlinks = []\<rparr>"

section \<open>Facts about the string functions\<close>

lemma HasPrefix_iff: "HasPrefix s p \<longleftrightarrow> (\<exists>rest. s = p @ rest)"
  unfolding HasPrefix_def
  by (metis append_eq_conv_conj append_take_drop_id le_add1 length_append)

lemma Contains_iff: "Contains s sub \<longleftrightarrow> (\<exists>a b. s = a @ sub @ b)"
proof (induction s)
  case Nil
  show ?case by auto
next
  case (Cons c cs)
  show ?case
  proof
    assume "Contains (c # cs) sub"
    then consider "HasPrefix (c # cs) sub" | "Contains cs sub" by auto
    then show "\<exists>a b. c # cs = a @ sub @ b"
    proof cases
      case 1
      then obtain r where "c # cs = sub @ r" by (auto simp: HasPrefix_iff)
      then have "c # cs = [] @ sub @ r" by simp
      then show ?thesis by blast
    next
      case 2
      then obtain a b where "cs = a @ sub @ b" using Cons.IH by auto
      then have "c # cs = (c # a) @ sub @ b" by simp
      then show ?thesis by blast
    qed
  next
    assume "\<exists>a b. c # cs = a @ sub @ b"
    then obtain a b where ab: "c # cs = a @ sub @ b" by auto
    show "Contains (c # cs) sub"
    proof (cases a)
      case Nil
      then have "HasPrefix (c # cs) sub" using ab by (auto simp: HasPrefix_iff)
      then show ?thesis by simp
    next
      case (Cons x a')
      then have "cs = a' @ sub @ b" using ab by simp
      then have "Contains cs sub" using Cons.IH by blast
      then show ?thesis by simp
    qed
  qed
qed

lemma HasPrefix_append: "HasPrefix s (p @ q) \<Longrightarrow> HasPrefix s p"
  by (auto simp: HasPrefix_iff)

lemma not_dev_prefix:
  assumes "\<not> HasPrefix device ''/dev/''"
  shows "\<not> HasPrefix device ''/dev/loop''" and "\<not> HasPrefix device ''/dev/mapper/''"
proof -
  show "\<not> HasPrefix device ''/dev/loop''"
    using assms HasPrefix_append [of device "''/dev/''" "''loop''"] by auto
  show "\<not> HasPrefix device ''/dev/mapper/''"
    using assms HasPrefix_append [of device "''/dev/''" "''mapper/''"] by auto
qed

lemma Contains_self: "Contains s s"
  using Contains_iff [of s s] by (metis append_Nil append_Nil2)

section \<open>Base device name\<close>

lemma stripLoop_take:
  "k \<le> length path \<Longrightarrow>
   stripLoop path k (take k path) = rev (dropWhile isDigit (rev (take k path)))"
proof (induction k)
  case 0
  show ?case by simp
next
  case (Suc k)
  then have k: "k < length path" by simp
  have t: "take (Suc k) path = take k path @ [path ! k]"
    using k by (simp add: take_Suc_conv_app_nth)
  show ?case
  proof (cases "isDigit (path ! k)")
    case True
    then show ?thesis using Suc k t by simp
  next
    case False
    then show ?thesis using t by simp
  qed
qed

lemma getBaseDiskName_dropWhile:
  "getBaseDiskName path = rev (dropWhile isDigit (rev path))"
  using stripLoop_take [of "length path" path] by (simp add: getBaseDiskName_def)

lemma getBaseDiskName_append:
  assumes "\<forall>c\<in>set ds. isDigit c" and "p = [] \<or> \<not> isDigit (last p)"
  shows "getBaseDiskName (p @ ds) = p"
proof -
  have "dropWhile isDigit (rev ds @ rev p) = dropWhile isDigit (rev p)"
    by (rule dropWhile_append2) (use assms(1) in auto)
  moreover have "dropWhile isDigit (rev p) = rev p"
    using assms(2) by (cases p rule: rev_cases) auto
  ultimately show ?thesis by (simp add: getBaseDiskName_dropWhile)
qed

text \<open>
  Claim C8. Base-key extraction strips exactly the trailing run of decimal digits of a
  device path: two paths made of the same prefix \<open>p\<close>, which does not end in a digit,
  followed by runs of digits \<open>d1\<close> and \<open>d2\<close> both have the key \<open>p\<close>, and a path with
  no trailing digit is its own key.
\<close>

theorem getBaseDiskName_strips_trailing_digits:
  assumes "\<forall>c\<in>set d1. isDigit c" and "\<forall>c\<in>set d2. isDigit c"
    and "p = [] \<or> \<not> isDigit (last p)"
  shows "getBaseDiskName (p @ d1) = p \<and> getBaseDiskName (p @ d2) = p
         \<and> getBaseDiskName (p @ d1) = getBaseDiskName (p @ d2)
         \<and> getBaseDiskName p = p"
proof -
  have "getBaseDiskName (p @ []) = p"
    by (rule getBaseDiskName_append) (use assms(3) in auto)
  then show ?thesis
    using getBaseDiskName_append [OF assms(1) assms(3)]
      getBaseDiskName_append [OF assms(2) assms(3)] by simp
qed

theorem getBaseDiskName_strips_trailing_digits_witness:
  "getBaseDiskName ''/dev/sda1'' = ''/dev/sda''
   \<and> getBaseDiskName ''/dev/sda12'' = ''/dev/sda''
   \<and> getBaseDiskName ''/dev/sda1'' = getBaseDiskName ''/dev/sda12''
   \<and> getBaseDiskName ''/dev/sda'' = ''/dev/sda''"
proof -
  have h1: "\<forall>c\<in>set ''1''. isDigit c" by (simp add: isDigit_def)
  have h2: "\<forall>c\<in>set ''12''. isDigit c" by (simp add: isDigit_def)
  have h3: "''/dev/sda'' = [] \<or> \<not> isDigit (last ''/dev/sda'')" by (simp add: isDigit_def)
  show ?thesis
    using getBaseDiskName_strips_trailing_digits [OF h1 h2 h3] by simp
qed

section \<open>Classification of a failed command\<close>

text \<open>
  Claim C3. A child that exits with code 100 is suspected of a permission failure
  whatever the command text; with code 1 or 2 it is suspected if and only if the command
  text contains the name of a known package manager; with any other code it is a plain
  failure.
\<close>

theorem isPermissionError_classification:
  "isPermissionError command (ExitError 100)
   \<and> (code = 1 \<or> code = 2 \<longrightarrow>
        isPermissionError command (ExitError code)
          = (\<exists>pm\<in>set packageManagers. Contains command pm))
   \<and> (code \<noteq> 100 \<and> code \<noteq> 1 \<and> code \<noteq> 2 \<longrightarrow> \<not> isPermissionError command (ExitError code))"
  by (auto simp: isPermissionError_def packageManagers_def)

theorem isPermissionError_classification_witness:
  "isPermissionError ''make install'' (ExitError 100)
   \<and> isPermissionError ''apt install vim'' (ExitError 1)
   \<and> isPermissionError ''yum install vim'' (ExitError 2)
   \<and> \<not> isPermissionError ''make install'' (ExitError 1)
   \<and> \<not> isPermissionError ''apt install vim'' (ExitError 3)"
proof -
  have a: "\<exists>pm\<in>set packageManagers. Contains ''apt install vim'' pm"
    by (simp add: packageManagers_def HasPrefix_def)
  have y: "\<exists>pm\<in>set packageManagers. Contains ''yum install vim'' pm"
    by (simp add: packageManagers_def HasPrefix_def)
  have m: "\<not> (\<exists>pm\<in>set packageManagers. Contains ''make install'' pm)"
    by (simp add: packageManagers_def HasPrefix_def)
  show ?thesis
    using a y m
      isPermissionError_classification [of "''make install''" 1]
      isPermissionError_classification [of "''apt install vim''" 1]
      isPermissionError_classification [of "''yum install vim''" 2]
      isPermissionError_classification [of "''apt install vim''" 3]
    by simp
qed

section \<open>Classification of a disk\<close>

lemma analyzeDisk_untyped:
  "determineDiskType device filesystem options = None \<Longrightarrow>
   analyzeDisk os device mountPoint filesystem options = None"
  by (simp add: analyzeDisk_def)

lemma scanStep_untyped:
  assumes "determineDiskType device filesystem options = None"
    and "Fields line = device # mountPoint # filesystem # options # trailing"
  shows "snd (scanStep os line (seenMounts, ds)) = ds"
  using assms analyzeDisk_untyped [OF assms(1), of os mountPoint]
  by (simp add: scanStep_def Let_def)

text \<open>
  Claim C7. The classification is an ordered chain in which the first match wins: a bind
  marker in the options gives bind; else a device under \<open>/dev/loop\<close> gives loop; else
  one under \<open>/dev/mapper/\<close> gives lvm; else one under \<open>/dev/\<close> gives physical; else a
  filesystem nfs, nfs4, cifs or smb gives network; else a filesystem containing "fuse"
  gives fuse; else an absolute device path outside \<open>/dev/\<close> gives path; else there is
  no type, \<open>analyzeDisk\<close> returns nothing and the scan adds no disk for the record.
\<close>

theorem determineDiskType_ordered_chain:
  "(Contains options ''bind'' \<longrightarrow>
      determineDiskType device filesystem options = Some TypeBind)
   \<and> (\<not> Contains options ''bind'' \<and> HasPrefix device ''/dev/loop'' \<longrightarrow>
      determineDiskType device filesystem options = Some TypeLoop)
   \<and> (\<not> Contains options ''bind'' \<and> \<not> HasPrefix device ''/dev/loop''
        \<and> HasPrefix device ''/dev/mapper/'' \<longrightarrow>
      determineDiskType device filesystem options = Some TypeLVM)
   \<and> (\<not> Contains options ''bind'' \<and> \<not> HasPrefix device ''/dev/loop''
        \<and> \<not> HasPrefix device ''/dev/mapper/'' \<and> HasPrefix device ''/dev/'' \<longrightarrow>
      determineDiskType device filesystem options = Some TypePhysical)
   \<and> (\<not> Contains options ''bind'' \<and> \<not> HasPrefix device ''/dev/''
        \<and> filesystem \<in> set networkFilesystems \<longrightarrow>
      determineDiskType device filesystem options = Some TypeNetwork)
   \<and> (\<not> Contains options ''bind'' \<and> \<not> HasPrefix device ''/dev/''
        \<and> filesystem \<notin> set networkFilesystems \<and> Contains filesystem ''fuse'' \<longrightarrow>
      determineDiskType device filesystem options = Some TypeFUSE)
   \<and> (\<not> Contains options ''bind'' \<and> \<not> HasPrefix device ''/dev/''
        \<and> filesystem \<notin> set networkFilesystems \<and> \<not> Contains filesystem ''fuse''
        \<and> HasPrefix device ''/'' \<longrightarrow>
      determineDiskType device filesystem options = Some TypePath)
   \<and> (\<not> Contains options ''bind'' \<and> \<not> HasPrefix device ''/dev/''
        \<and> filesystem \<notin> set networkFilesystems \<and> \<not> Contains filesystem ''fuse''
        \<and> \<not> HasPrefix device ''/'' \<longrightarrow>
      determineDiskType device filesystem options = None
      \<and> analyzeDisk os device mountPoint filesystem options = None
      \<and> (Fields line = device # mountPoint # filesystem # options # trailing \<longrightarrow>
           snd (scanStep os line (seenMounts, ds)) = ds))"
proof (intro conjI impI)
  assume "Contains options ''bind''"
  then show "determineDiskType device filesystem options = Some TypeBind"
    by (simp add: determineDiskType_def)
next
  assume "\<not> Contains options ''bind'' \<and> HasPrefix device ''/dev/loop''"
  then show "determineDiskType device filesystem options = Some TypeLoop"
    by (simp add: determineDiskType_def)
next
  assume "\<not> Contains options ''bind'' \<and> \<not> HasPrefix device ''/dev/loop''
          \<and> HasPrefix device ''/dev/mapper/''"
  then show "determineDiskType device filesystem options = Some TypeLVM"
    by (simp add: determineDiskType_def)
next
  assume "\<not> Contains options ''bind'' \<and> \<not> HasPrefix device ''/dev/loop''
          \<and> \<not> HasPrefix device ''/dev/mapper/'' \<and> HasPrefix device ''/dev/''"
  then show "determineDiskType device filesystem options = Some TypePhysical"
    by (simp add: determineDiskType_def)
next
  assume a: "\<not> Contains options ''bind'' \<and> \<not> HasPrefix device ''/dev/''
             \<and> filesystem \<in> set networkFilesystems"
  then have "filesystem = ''nfs'' \<or> filesystem = ''nfs4'' \<or> filesystem = ''cifs''
             \<or> filesystem = ''smb''"
    by (simp add: networkFilesystems_def)
  then show "determineDiskType device filesystem options = Some TypeNetwork"
    using a not_dev_prefix [of device] by (simp add: determineDiskType_def)
next
  assume a: "\<not> Contains options ''bind'' \<and> \<not> HasPrefix device ''/dev/''
             \<and> filesystem \<notin> set networkFilesystems \<and> Contains filesystem ''fuse''"
  then have "\<not> (filesystem = ''nfs'' \<or> filesystem = ''nfs4'' \<or> filesystem = ''cifs''
             \<or> filesystem = ''smb'')"
    by (simp add: networkFilesystems_def)
  then show "determineDiskType device filesystem options = Some TypeFUSE"
    using a not_dev_prefix [of device] by (simp add: determineDiskType_def)
next
  assume a: "\<not> Contains options ''bind'' \<and> \<not> HasPrefix device ''/dev/''
             \<and> filesystem \<notin> set networkFilesystems \<and> \<not> Contains filesystem ''fuse''
             \<and> HasPrefix device ''/''"
  then have n: "\<not> (filesystem = ''nfs'' \<or> filesystem = ''nfs4'' \<or> filesystem = ''cifs''
             \<or> filesystem = ''smb'')"
    by (simp add: networkFilesystems_def)
  have f: "filesystem \<noteq> ''fuse''"
    using a Contains_self [of "''fuse''"] by auto
  show "determineDiskType device filesystem options = Some TypePath"
    using a n f not_dev_prefix [of device] by (simp add: determineDiskType_def)
next
  assume a: "\<not> Contains options ''bind'' \<and> \<not> HasPrefix device ''/dev/''
             \<and> filesystem \<notin> set networkFilesystems \<and> \<not> Contains filesystem ''fuse''
             \<and> \<not> HasPrefix device ''/''"
  then have n: "\<not> (filesystem = ''nfs'' \<or> filesystem = ''nfs4'' \<or> filesystem = ''cifs''
             \<or> filesystem = ''smb'')"
    by (simp add: networkFilesystems_def)
  have f: "filesystem \<noteq> ''fuse''"
    using a Contains_self [of "''fuse''"] by auto
  show none: "determineDiskType device filesystem options = None"
    using a n f not_dev_prefix [of device] by (simp add: determineDiskType_def)
  show "analyzeDisk os device mountPoint filesystem options = None"
    by (rule analyzeDisk_untyped [OF none])
  assume "Fields line = device # mountPoint # filesystem # options # trailing"
  then show "snd (scanStep os line (seenMounts, ds)) = ds"
    by (rule scanStep_untyped [OF none])
qed

theorem determineDiskType_ordered_chain_witness:
  "determineDiskType ''/dev/loop0'' ''ext4'' ''rw,bind'' = Some TypeBind
   \<and> determineDiskType ''/dev/loop0'' ''squashfs'' ''ro'' = Some TypeLoop
   \<and> determineDiskType ''/dev/mapper/vg-root'' ''ext4'' ''rw'' = Some TypeLVM
   \<and> determineDiskType ''/dev/sda1'' ''nfs'' ''rw'' = Some TypePhysical
   \<and> determineDiskType ''server:/export'' ''nfs4'' ''rw'' = Some TypeNetwork
   \<and> determineDiskType ''sshfs#host'' ''fuse.sshfs'' ''rw'' = Some TypeFUSE
   \<and> determineDiskType ''/srv/image'' ''ext4'' ''rw'' = Some TypePath
   \<and> determineDiskType ''overlay'' ''overlay'' ''rw'' = None
   \<and> analyzeDisk exampleOS ''overlay'' ''/var/lib/x'' ''overlay'' ''rw'' = None
   \<and> snd (scanStep exampleOS ''overlay /var/lib/x overlay rw 0 0'' ((\<lambda>_. False), [])) = []"
proof -
  have l: "Fields ''overlay /var/lib/x overlay rw 0 0''
           = ''overlay'' # ''/var/lib/x'' # ''overlay'' # ''rw'' # [''0'', ''0'']"
    by (simp add: Fields_def isSpace_def)
  show ?thesis
    using l
      determineDiskType_ordered_chain [of "''rw,bind''" "''/dev/loop0''" "''ext4''"]
      determineDiskType_ordered_chain [of "''ro''" "''/dev/loop0''" "''squashfs''"]
      determineDiskType_ordered_chain [of "''rw''" "''/dev/mapper/vg-root''" "''ext4''"]
      determineDiskType_ordered_chain [of "''rw''" "''/dev/sda1''" "''nfs''"]
      determineDiskType_ordered_chain [of "''rw''" "''server:/export''" "''nfs4''"]
      determineDiskType_ordered_chain [of "''rw''" "''sshfs#host''" "''fuse.sshfs''"]
      determineDiskType_ordered_chain [of "''rw''" "''/srv/image''" "''ext4''"]
      determineDiskType_ordered_chain [of "''rw''" "''overlay''" "''overlay''" exampleOS
        "''/var/lib/x''" "''overlay /var/lib/x overlay rw 0 0''" "[''0'', ''0'']"
        "(\<lambda>_. False)" "[]"]
    by (simp add: HasPrefix_def networkFilesystems_def)
qed

section \<open>Hardlink groups\<close>

lemma Hardlinks_statsStep:
  "Hardlinks (statsStep disk stats) =
     (if Inode disk > 0 \<and> Type disk \<noteq> TypeSymlink
      then (Hardlinks stats)(Inode disk \<mapsto> pathsOf (Hardlinks stats) (Inode disk) @ [Path disk])
      else Hardlinks stats)"
  by (simp add: statsStep_def Let_def pathsOf_def)

lemma inodeBucket_append:
  "inodeBucket (xs @ ys) inode = inodeBucket xs inode @ inodeBucket ys inode"
  by (simp add: inodeBucket_def)

lemma pathsOf_statsStep:
  "pathsOf (Hardlinks (statsStep d stats)) inode
     = pathsOf (Hardlinks stats) inode @ inodeBucket [d] inode"
  by (simp add: Hardlinks_statsStep pathsOf_def inodeBucket_def)

lemma Hardlinks_statsStep_None:
  "Hardlinks (statsStep d stats) inode = None
     \<longleftrightarrow> Hardlinks stats inode = None \<and> inodeBucket [d] inode = []"
  by (simp add: Hardlinks_statsStep inodeBucket_def)

lemma pathsOf_fold:
  "pathsOf (Hardlinks (fold statsStep ds stats)) inode
     = pathsOf (Hardlinks stats) inode @ inodeBucket ds inode"
proof (induction ds arbitrary: stats)
  case Nil
  show ?case by (simp add: inodeBucket_def)
next
  case (Cons d ds)
  have "pathsOf (Hardlinks (statsStep d stats)) inode
          = pathsOf (Hardlinks stats) inode @ inodeBucket [d] inode"
    by (rule pathsOf_statsStep)
  moreover have "inodeBucket (d # ds) inode = inodeBucket [d] inode @ inodeBucket ds inode"
    using inodeBucket_append [of "[d]" ds inode] by simp
  ultimately show ?case using Cons.IH [of "statsStep d stats"] by simp
qed

lemma Hardlinks_fold_None:
  "Hardlinks (fold statsStep ds stats) inode = None
     \<longleftrightarrow> Hardlinks stats inode = None \<and> inodeBucket ds inode = []"
proof (induction ds arbitrary: stats)
  case Nil
  show ?case by (simp add: inodeBucket_def)
next
  case (Cons d ds)
  have "Hardlinks (statsStep d stats) inode = None
          \<longleftrightarrow> Hardlinks stats inode = None \<and> inodeBucket [d] inode = []"
    by (rule Hardlinks_statsStep_None)
  moreover have "inodeBucket (d # ds) inode = inodeBucket [d] inode @ inodeBucket ds inode"
    using inodeBucket_append [of "[d]" ds inode] by simp
  ultimately show ?case using Cons.IH [of "statsStep d stats"] by simp
qed

text \<open>
  Claim C9. \<open>GetStats\<close> buckets the disks with a nonzero inode and a type other than
  symlink by inode number, and reports a bucket as a hardlink group if and only if it has
  at least two members: the entry of an inode number is its bucket when the bucket has two
  paths or more, and is absent otherwise (so a lone disk makes no group).
\<close>

theorem GetStats_hardlinks:
  "Hardlinks (GetStats m) inode
     = (if 2 \<le> length (inodeBucket (disks m) inode)
        then Some (inodeBucket (disks m) inode) else None)"
proof -
  let ?stats0 = "\<lparr>TotalDisks = int (length (disks m)), StatsTotalSize = 0,
                   TotalAvailable = 0, StatsTotalUsed = 0, DisksByType = Map.empty,
                   Hardlinks = Map.empty, Symlinks = []\<rparr>"
  let ?h = "Hardlinks (fold statsStep (disks m) ?stats0)"
  have p: "pathsOf ?h inode = inodeBucket (disks m) inode"
    using pathsOf_fold [of "disks m" ?stats0 inode] by (simp add: pathsOf_def)
  have n: "?h inode = None \<longleftrightarrow> inodeBucket (disks m) inode = []"
    using Hardlinks_fold_None [of "disks m" ?stats0 inode] by simp
  have "cleanHardlinks ?h inode
          = (if 2 \<le> length (inodeBucket (disks m) inode)
             then Some (inodeBucket (disks m) inode) else None)"
  proof (cases "?h inode")
    case None
    then show ?thesis using n by (simp add: cleanHardlinks_def)
  next
    case (Some paths)
    then have "paths = inodeBucket (disks m) inode" using p by (simp add: pathsOf_def)
    then show ?thesis using Some by (auto simp: cleanHardlinks_def)
  qed
  then show ?thesis by (simp add: GetStats_def Let_def)
qed

theorem GetStats_hardlinks_witness:
  "Hardlinks (GetStats exampleManager) 7 = Some [''/dev/sda1'', ''/dev/sda1'']
   \<and> Hardlinks (GetStats exampleManager) 9 = None
   \<and> Hardlinks (GetStats exampleManager) 0 = None"
  using GetStats_hardlinks [of exampleManager 7] GetStats_hardlinks [of exampleManager 9]
    GetStats_hardlinks [of exampleManager 0]
  by (simp add: inodeBucket_def exampleManager_def exampleDisk_def)

section \<open>Drive groups\<close>

lemma fold_bootStep:
  "fst (fold bootStep ds (g, grouped)) =
     g\<lparr>Disks := Disks g @ filter isBoot ds,
       TotalSize := TotalSize g + sum_list (map Size (filter isBoot ds)),
       TotalUsed := TotalUsed g + sum_list (map Used (filter isBoot ds))\<rparr>"
proof (induction ds arbitrary: g grouped)
  case Nil
  show ?case by simp
next
  case (Cons d ds)
  show ?case
  proof (cases "isBoot d")
    case True
    then have "bootStep d (g, grouped) =
        (g\<lparr>Disks := Disks g @ [d], TotalSize := TotalSize g + Size d,
           TotalUsed := TotalUsed g + Used d\<rparr>, grouped(Path d := True))"
      by (simp add: bootStep_def isBoot_def)
    then show ?thesis using True Cons.IH by (simp add: add.assoc)
  next
    case False
    then have "bootStep d (g, grouped) = (g, grouped)"
      by (simp add: bootStep_def isBoot_def)
    then show ?thesis using False Cons.IH by simp
  qed
qed

lemma systemLoop_Some:
  assumes "fst (systemLoop all rest) = Some g"
  shows "\<exists>root. List.find (\<lambda>d. MountPoint d = ''/'') rest = Some root
           \<and> g = (systemSeed root)\<lparr>Disks := [root] @ filter isBoot all,
                   TotalSize := Size root + sum_list (map Size (filter isBoot all)),
                   TotalUsed := Used root + sum_list (map Used (filter isBoot all))\<rparr>"
  using assms
proof (induction rest)
  case Nil
  then show ?case by simp
next
  case (Cons disk rest)
  show ?case
  proof (cases "MountPoint disk = ''/''")
    case True
    have "fst (systemLoop all (disk # rest))
            = Some (fst (fold bootStep all (systemSeed disk, (\<lambda>_. False)(Path disk := True))))"
      using True by (simp split: prod.splits)
    then have "g = fst (fold bootStep all (systemSeed disk, (\<lambda>_. False)(Path disk := True)))"
      using Cons.prems by simp
    then show ?thesis using True by (simp add: fold_bootStep systemSeed_def)
  next
    case False
    then show ?thesis using Cons by simp
  qed
qed

lemma set_update_subset: "set (AList.update k v al) \<subseteq> insert (k, v) (set al)"
  by (induction al) auto

lemma dataStep_OK:
  assumes "\<forall>p\<in>set pd. dataGroupOK (snd p)"
  shows "\<forall>p\<in>set (snd (dataStep [] disk (grouped, pd))). dataGroupOK (snd p)"
proof (cases "dataStep [] disk (grouped, pd) = (grouped, pd)")
  case True
  then show ?thesis using assms by simp
next
  case False
  let ?k = "getBaseDiskName (Path disk)"
  show ?thesis
  proof (cases "map_of pd ?k")
    case None
    have seed: "dataGroupOK (dataSeed [] disk)"
      by (simp add: dataGroupOK_def dataSeed_def)
    have "snd (dataStep [] disk (grouped, pd)) = AList.update ?k (dataSeed [] disk) pd"
      using False None by (simp add: dataStep_def Let_def split: if_splits)
    then show ?thesis using assms seed set_update_subset [of ?k "dataSeed [] disk" pd] by auto
  next
    case (Some grp)
    let ?g = "grp\<lparr>Disks := Disks grp @ [disk], TotalSize := TotalSize grp + Size disk,
                 TotalUsed := TotalUsed grp + Used disk,
                 GroupAvailable := GroupAvailable grp + Available disk\<rparr>"
    have "(?k, grp) \<in> set pd" using Some by (rule map_of_SomeD)
    then have "dataGroupOK grp" using assms by auto
    then have new: "dataGroupOK ?g" by (simp add: dataGroupOK_def)
    have "snd (dataStep [] disk (grouped, pd)) = AList.update ?k ?g pd"
      using False Some by (simp add: dataStep_def Let_def split: if_splits)
    then show ?thesis using assms new set_update_subset [of ?k ?g pd] by auto
  qed
qed

lemma fold_dataStep_OK:
  "\<forall>p\<in>set pd. dataGroupOK (snd p) \<Longrightarrow>
   \<forall>p\<in>set (snd (fold (dataStep []) ds (grouped, pd))). dataGroupOK (snd p)"
proof (induction ds arbitrary: grouped pd)
  case Nil
  then show ?case by simp
next
  case (Cons d ds)
  obtain grouped' pd' where st: "dataStep [] d (grouped, pd) = (grouped', pd')"
    by (cases "dataStep [] d (grouped, pd)")
  have "\<forall>p\<in>set pd'. dataGroupOK (snd p)"
    using dataStep_OK [OF Cons.prems, of d grouped] st by simp
  then show ?case using Cons.IH [of pd' grouped'] st by simp
qed

lemma fold_networkStep:
  "(\<forall>g\<in>set acc. GroupType g = ''network'') \<Longrightarrow>
   \<forall>g\<in>set (fold (networkStep grouped) ds acc). GroupType g = ''network''"
proof (induction ds arbitrary: acc)
  case Nil
  then show ?case by simp
next
  case (Cons d ds)
  have "\<forall>g\<in>set (networkStep grouped d acc). GroupType g = ''network''"
    using Cons.prems by (simp add: networkStep_def networkSeed_def)
  then show ?case using Cons.IH [of "networkStep grouped d acc"] by simp
qed

lemma GroupDisks_members:
  assumes "g \<in> set (GroupDisks ds)"
  shows "fst (systemLoop ds ds) = Some g \<or> dataGroupOK g \<or> GroupType g = ''network''"
proof -
  obtain sys grouped1 where s: "systemLoop ds ds = (sys, grouped1)"
    by (cases "systemLoop ds ds")
  obtain grouped2 pd where d: "fold (dataStep []) ds (grouped1, []) = (grouped2, pd)"
    by (cases "fold (dataStep []) ds (grouped1, [])")
  have pd: "\<forall>p\<in>set pd. dataGroupOK (snd p)"
    using fold_dataStep_OK [of "[]" ds grouped1] d by simp
  have net: "\<forall>g\<in>set (fold (networkStep grouped2) ds []). GroupType g = ''network''"
    by (rule fold_networkStep) simp
  have "GroupDisks ds = (case sys of None \<Rightarrow> [] | Some g \<Rightarrow> [g]) @ map snd pd
                          @ fold (networkStep grouped2) ds []"
    using s d by (simp add: GroupDisks_def)
  then consider "sys = Some g" | "g \<in> set (map snd pd)"
    | "g \<in> set (fold (networkStep grouped2) ds [])"
    using assms by (auto split: option.splits)
  then show ?thesis
  proof cases
    case 1
    then show ?thesis using s by simp
  next
    case 2
    then show ?thesis using pd by auto
  next
    case 3
    then show ?thesis using net by auto
  qed
qed

lemma GroupDisks_exampleDisks:
  "GroupDisks exampleDisks =
     [(systemSeed (exampleDisk ''/dev/sda1'' ''/'' 7))
        \<lparr>Disks := [exampleDisk ''/dev/sda1'' ''/'' 7, exampleDisk ''/dev/sda2'' ''/boot'' 8],
         TotalSize := 8192000000, TotalUsed := 4915200000\<rparr>,
      (dataSeed [] (exampleDisk ''/dev/sdb1'' ''/mnt/a'' 9))
        \<lparr>Disks := [exampleDisk ''/dev/sdb1'' ''/mnt/a'' 9, exampleDisk ''/dev/sdb2'' ''/mnt/b'' 10],
         TotalSize := 8192000000, TotalUsed := 4915200000, GroupAvailable := 2867200000\<rparr>,
      dataSeed [] (exampleDisk ''/dev/sdc1'' ''/mnt/c'' 11)]"
  by (simp add: GroupDisks_def exampleDisks_def exampleDisk_def dataStep_def HasPrefix_def
      getBaseDiskName_def isDigit_def bootStep_def networkStep_def systemSeed_def dataSeed_def)

text \<open>
  A sum of \<open>uint64\<close> values is the sum of the numbers modulo \<open>2 ^ 64\<close>, and is that
  sum itself when it fits 64 bits.
\<close>

lemma unat_sum_list:
  "unat (sum_list (ws :: uint64 list)) = sum_list (map unat ws) mod 2 ^ 64"
proof (induction ws)
  case Nil
  show ?case by simp
next
  case (Cons w ws)
  have "unat (w + sum_list ws) = (unat w + unat (sum_list ws)) mod 2 ^ 64"
    by (simp add: unat_word_ariths)
  also have "\<dots> = (unat w + sum_list (map unat ws) mod 2 ^ 64) mod 2 ^ 64"
    using Cons.IH by simp
  also have "\<dots> = (unat w + sum_list (map unat ws)) mod 2 ^ 64"
    by (rule mod_add_right_eq)
  finally show ?case by simp
qed

lemma unat_sum_list_exact:
  "sum_list (map unat (ws :: uint64 list)) < 2 ^ 64 \<Longrightarrow>
   unat (sum_list ws) = sum_list (map unat ws)"
  by (simp add: unat_sum_list)

text \<open>
  Claim C4. For every group \<open>g\<close> that \<open>GroupDisks\<close> returns: if \<open>g\<close> is a data group,
  its \<open>TotalSize\<close>, \<open>TotalUsed\<close> and \<open>Available\<close> are the sums of the members'
  \<open>Size\<close>, \<open>Used\<close> and \<open>Available\<close>; if \<open>g\<close> is the system group, there is a root
  disk (the first disk mounted at \<open>/\<close>), the group's \<open>Available\<close> is exactly the root
  disk's, its members are the root disk followed by every disk whose mount point starts
  with \<open>/boot\<close>, and its \<open>TotalSize\<close> and \<open>TotalUsed\<close> are summed over these members.
  The sums are those of the code, in \<open>uint64\<close>.
\<close>

theorem GroupDisks_totals:
  assumes "g \<in> set (GroupDisks ds)"
  shows "(GroupType g = ''data'' \<longrightarrow>
            TotalSize g = sum_list (map Size (Disks g))
            \<and> TotalUsed g = sum_list (map Used (Disks g))
            \<and> GroupAvailable g = sum_list (map Available (Disks g)))
         \<and> (GroupType g = ''system'' \<longrightarrow>
              (\<exists>root. List.find (\<lambda>d. MountPoint d = ''/'') ds = Some root
                 \<and> GroupAvailable g = Available root
                 \<and> Disks g = root # filter (\<lambda>d. HasPrefix (MountPoint d) ''/boot'') ds
                 \<and> TotalSize g = sum_list (map Size (Disks g))
                 \<and> TotalUsed g = sum_list (map Used (Disks g))))"
proof -
  consider (sys) "fst (systemLoop ds ds) = Some g" | (data) "dataGroupOK g"
    | (net) "GroupType g = ''network''"
    using GroupDisks_members [OF assms] by blast
  then show ?thesis
  proof cases
    case sys
    then obtain root where r: "List.find (\<lambda>d. MountPoint d = ''/'') ds = Some root"
      and g: "g = (systemSeed root)\<lparr>Disks := [root] @ filter isBoot ds,
                   TotalSize := Size root + sum_list (map Size (filter isBoot ds)),
                   TotalUsed := Used root + sum_list (map Used (filter isBoot ds))\<rparr>"
      using systemLoop_Some [of ds ds g] by blast
    have b: "filter isBoot ds = filter (\<lambda>d. HasPrefix (MountPoint d) ''/boot'') ds"
      by (simp add: isBoot_def [abs_def])
    have "GroupType g = ''system''" using g by (simp add: systemSeed_def)
    moreover have "GroupAvailable g = Available root" using g by (simp add: systemSeed_def)
    moreover have "Disks g = root # filter (\<lambda>d. HasPrefix (MountPoint d) ''/boot'') ds"
      using g b by simp
    moreover have "TotalSize g = sum_list (map Size (Disks g))" using g by simp
    moreover have "TotalUsed g = sum_list (map Used (Disks g))" using g by simp
    ultimately show ?thesis using r by simp
  next
    case data
    then show ?thesis by (simp add: dataGroupOK_def)
  next
    case net
    then show ?thesis by simp
  qed
qed

theorem GroupDisks_totals_witness:
  "GroupType (GroupDisks exampleDisks ! 0) = ''system''
   \<and> GroupAvailable (GroupDisks exampleDisks ! 0) = Available (exampleDisk ''/dev/sda1'' ''/'' 7)
   \<and> GroupAvailable (GroupDisks exampleDisks ! 0) = 1433600000
   \<and> TotalSize (GroupDisks exampleDisks ! 0)
       = Size (exampleDisk ''/dev/sda1'' ''/'' 7) + Size (exampleDisk ''/dev/sda2'' ''/boot'' 8)
   \<and> GroupType (GroupDisks exampleDisks ! 1) = ''data''
   \<and> TotalSize (GroupDisks exampleDisks ! 1) = 8192000000
   \<and> GroupAvailable (GroupDisks exampleDisks ! 1) = 2867200000"
proof -
  have m0: "GroupDisks exampleDisks ! 0 \<in> set (GroupDisks exampleDisks)"
    and m1: "GroupDisks exampleDisks ! 1 \<in> set (GroupDisks exampleDisks)"
    by (simp_all add: GroupDisks_exampleDisks)
  have e0: "GroupDisks exampleDisks ! 0 =
      (systemSeed (exampleDisk ''/dev/sda1'' ''/'' 7))
        \<lparr>Disks := [exampleDisk ''/dev/sda1'' ''/'' 7, exampleDisk ''/dev/sda2'' ''/boot'' 8],
         TotalSize := 8192000000, TotalUsed := 4915200000\<rparr>"
    and e1: "GroupDisks exampleDisks ! 1 =
      (dataSeed [] (exampleDisk ''/dev/sdb1'' ''/mnt/a'' 9))
        \<lparr>Disks := [exampleDisk ''/dev/sdb1'' ''/mnt/a'' 9, exampleDisk ''/dev/sdb2'' ''/mnt/b'' 10],
         TotalSize := 8192000000, TotalUsed := 4915200000, GroupAvailable := 2867200000\<rparr>"
    by (simp_all add: GroupDisks_exampleDisks)
  have f: "List.find (\<lambda>d. MountPoint d = ''/'') exampleDisks
             = Some (exampleDisk ''/dev/sda1'' ''/'' 7)"
    by (simp add: exampleDisks_def exampleDisk_def)
  show ?thesis
    using GroupDisks_totals [OF m0] GroupDisks_totals [OF m1] f
    unfolding e0 e1
    by (simp add: systemSeed_def dataSeed_def exampleDisk_def)
qed

text \<open>With index 1 a numbered name ends in 1.\<close>

lemma getDriveName_first:
  "getDriveName d 1 \<in> {''Home Drive'', ''Data Drive'', ''Backup Drive'', ''Media Drive'',
                        ''Volume 1'', ''SSD Drive 1'', ''Drive 1'', ''Storage 1''}"
  by (simp add: getDriveName_def Sprintf_d_def)

text \<open>
  Claim C10. The index that \<open>getDriveName\<close> receives for a new data group is
  \<open>len(dataGroups)+1\<close> with \<open>dataGroups\<close> still empty, that is 1: every data group of
  the result is named as \<open>getDriveName\<close> names its first member with index 1, so a
  numbered name is "Volume 1", "SSD Drive 1", "Drive 1" or "Storage 1", however many
  groups the call creates.
\<close>

theorem GroupDisks_data_group_index:
  assumes "g \<in> set (GroupDisks ds)" and "GroupType g = ''data''"
  shows "Disks g \<noteq> [] \<and> Name g = getDriveName (hd (Disks g)) 1
         \<and> Name g \<in> {''Home Drive'', ''Data Drive'', ''Backup Drive'', ''Media Drive'',
                       ''Volume 1'', ''SSD Drive 1'', ''Drive 1'', ''Storage 1''}"
proof -
  consider (sys) "fst (systemLoop ds ds) = Some g" | (data) "dataGroupOK g"
    | (net) "GroupType g = ''network''"
    using GroupDisks_members [OF assms(1)] by blast
  then show ?thesis
  proof cases
    case sys
    then have "GroupType g = ''system''"
      using systemLoop_Some [of ds ds g] by (auto simp: systemSeed_def)
    then show ?thesis using assms(2) by simp
  next
    case data
    then show ?thesis using getDriveName_first [of "hd (Disks g)"]
      by (simp add: dataGroupOK_def)
  next
    case net
    then show ?thesis using assms(2) by simp
  qed
qed

theorem GroupDisks_data_group_index_witness:
  "map Path (Disks (GroupDisks exampleDisks ! 1)) = [''/dev/sdb1'', ''/dev/sdb2'']
   \<and> Name (GroupDisks exampleDisks ! 1) = ''Drive 1''
   \<and> map Path (Disks (GroupDisks exampleDisks ! 2)) = [''/dev/sdc1'']
   \<and> Name (GroupDisks exampleDisks ! 2) = ''Drive 1''"
proof -
  have m1: "GroupDisks exampleDisks ! 1 \<in> set (GroupDisks exampleDisks)"
    and m2: "GroupDisks exampleDisks ! 2 \<in> set (GroupDisks exampleDisks)"
    by (simp_all add: GroupDisks_exampleDisks)
  have t1: "GroupType (GroupDisks exampleDisks ! 1) = ''data''"
    and t2: "GroupType (GroupDisks exampleDisks ! 2) = ''data''"
    by (simp_all add: GroupDisks_exampleDisks dataSeed_def)
  have n1: "getDriveName (exampleDisk ''/dev/sdb1'' ''/mnt/a'' 9) 1 = ''Drive 1''"
    and n2: "getDriveName (exampleDisk ''/dev/sdc1'' ''/mnt/c'' 11) 1 = ''Drive 1''"
    by (simp_all add: getDriveName_def exampleDisk_def HasPrefix_def Sprintf_d_def)
  have d1: "Disks (GroupDisks exampleDisks ! 1)
              = [exampleDisk ''/dev/sdb1'' ''/mnt/a'' 9, exampleDisk ''/dev/sdb2'' ''/mnt/b'' 10]"
    and d2: "Disks (GroupDisks exampleDisks ! 2) = [exampleDisk ''/dev/sdc1'' ''/mnt/c'' 11]"
    by (simp_all add: GroupDisks_exampleDisks dataSeed_def)
  have p: "Path (exampleDisk ''/dev/sdb1'' ''/mnt/a'' 9) = ''/dev/sdb1''"
    "Path (exampleDisk ''/dev/sdb2'' ''/mnt/b'' 10) = ''/dev/sdb2''"
    "Path (exampleDisk ''/dev/sdc1'' ''/mnt/c'' 11) = ''/dev/sdc1''"
    by (simp_all add: exampleDisk_def)
  show ?thesis
    using GroupDisks_data_group_index [OF m1 t1] GroupDisks_data_group_index [OF m2 t2]
      n1 n2 p d1 d2
    by simp
qed

section \<open>One disk per mount point\<close>

lemma scanStep_short:
  "length (Fields line) < 4 \<Longrightarrow> scanStep os line st = st"
  by (cases st) (simp add: scanStep_def Let_def)

lemma Fields_Nil: "Fields [] = []"
  by (simp add: Fields_def)

lemma scanStep_seen:
  "seenMounts (Fields line ! 1) \<Longrightarrow> scanStep os line (seenMounts, ds) = (seenMounts, ds)"
  by (simp add: scanStep_def Let_def)

lemma scanStep_new:
  assumes "4 \<le> length (Fields line)" and "\<not> seenMounts (Fields line ! 1)"
  shows "scanStep os line (seenMounts, ds) =
           (seenMounts(Fields line ! 1 := True),
            ds @ (case analyzeRecord os (Fields line) of None \<Rightarrow> [] | Some d \<Rightarrow> [d]))"
proof -
  have "line \<noteq> []" using assms(1) Fields_Nil by auto
  then show ?thesis
    using assms by (simp add: scanStep_def Let_def analyzeRecord_def split: option.splits)
qed

lemma map_filter_Cons:
  "List.map_filter f (x # xs) =
     (case f x of None \<Rightarrow> [] | Some y \<Rightarrow> [y]) @ List.map_filter f xs"
  by (simp add: List.map_filter_def split: option.splits)

lemma fold_scanStep:
  "snd (fold (scanStep os) lines (seenMounts, ds)) =
     ds @ List.map_filter (analyzeRecord os)
            (firstPerMountPoint (filter (\<lambda>r. \<not> seenMounts (r ! 1)) (mountRecords lines)))"
proof (induction lines arbitrary: seenMounts ds)
  case Nil
  show ?case by (simp add: mountRecords_def List.map_filter_def)
next
  case (Cons line lines)
  let ?r = "Fields line"
  consider (short) "length ?r < 4" | (seen) "4 \<le> length ?r" "seenMounts (?r ! 1)"
    | (new) "4 \<le> length ?r" "\<not> seenMounts (?r ! 1)"
    by fastforce
  then show ?case
  proof cases
    case short
    then have "mountRecords (line # lines) = mountRecords lines"
      by (simp add: mountRecords_def)
    then show ?thesis using short Cons.IH [of seenMounts ds] by (simp add: scanStep_short)
  next
    case seen
    then have "mountRecords (line # lines) = ?r # mountRecords lines"
      by (simp add: mountRecords_def)
    then show ?thesis using seen Cons.IH [of seenMounts ds] by (simp add: scanStep_seen)
  next
    case new
    define seen' where "seen' = seenMounts(?r ! 1 := True)"
    define added where
      "added = (case analyzeRecord os ?r of None \<Rightarrow> [] | Some d \<Rightarrow> [d])"
    define rest where
      "rest = firstPerMountPoint (filter (\<lambda>r. \<not> seen' (r ! 1)) (mountRecords lines))"
    have m: "mountRecords (line # lines) = ?r # mountRecords lines"
      using new by (simp add: mountRecords_def)
    have f: "filter (\<lambda>r'. r' ! 1 \<noteq> ?r ! 1)
               (filter (\<lambda>r. \<not> seenMounts (r ! 1)) (mountRecords lines))
             = filter (\<lambda>r. \<not> seen' (r ! 1)) (mountRecords lines)"
      unfolding filter_filter seen'_def by (rule filter_cong) auto
    have fp: "firstPerMountPoint
                (filter (\<lambda>r. \<not> seenMounts (r ! 1)) (mountRecords (line # lines)))
              = ?r # rest"
    proof -
      have "filter (\<lambda>r. \<not> seenMounts (r ! 1)) (mountRecords (line # lines))
              = ?r # filter (\<lambda>r. \<not> seenMounts (r ! 1)) (mountRecords lines)"
        using new(2) m by simp
      then show ?thesis by (simp only: firstPerMountPoint.simps f rest_def)
    qed
    have step: "scanStep os line (seenMounts, ds) = (seen', ds @ added)"
      unfolding seen'_def added_def
      by (rule scanStep_new [of line seenMounts os ds]) (use new in auto)
    have "snd (fold (scanStep os) (line # lines) (seenMounts, ds))
            = snd (fold (scanStep os) lines (seen', ds @ added))"
      by (simp only: fold_simps o_apply step)
    also have "\<dots> = (ds @ added) @ List.map_filter (analyzeRecord os) rest"
      unfolding rest_def by (rule Cons.IH)
    also have "\<dots> = ds @ List.map_filter (analyzeRecord os) (?r # rest)"
      by (simp only: map_filter_Cons added_def append_assoc)
    finally show ?thesis by (simp only: fp)
  qed
qed

lemma analyzeDisk_MountPoint:
  "analyzeDisk os device mountPoint filesystem options = Some d \<Longrightarrow> MountPoint d = mountPoint"
  by (auto simp: analyzeDisk_def Let_def split: option.splits if_splits)

lemma analyzeRecord_MountPoint:
  "analyzeRecord os r = Some d \<Longrightarrow> MountPoint d = r ! 1"
  by (auto simp: analyzeRecord_def dest: analyzeDisk_MountPoint split: if_splits)

lemma set_firstPerMountPoint: "set (firstPerMountPoint rs) \<subseteq> set rs"
  by (induction rs rule: firstPerMountPoint.induct) auto

lemma distinct_firstPerMountPoint:
  "distinct (map (\<lambda>r. r ! 1) (firstPerMountPoint rs))"
proof (induction rs rule: firstPerMountPoint.induct)
  case 1
  show ?case by simp
next
  case (2 r rs)
  have "set (firstPerMountPoint (filter (\<lambda>r'. r' ! 1 \<noteq> r ! 1) rs))
          \<subseteq> {r' \<in> set rs. r' ! 1 \<noteq> r ! 1}"
    using set_firstPerMountPoint [of "filter (\<lambda>r'. r' ! 1 \<noteq> r ! 1) rs"] by auto
  then have "r ! 1 \<notin> (\<lambda>r. r ! 1) ` set (firstPerMountPoint (filter (\<lambda>r'. r' ! 1 \<noteq> r ! 1) rs))"
    by auto
  then show ?case using "2.IH" by simp
qed

lemma set_map_filter_MountPoint:
  "MountPoint ` set (List.map_filter (analyzeRecord os) rs) \<subseteq> (\<lambda>r. r ! 1) ` set rs"
proof
  fix mp
  assume "mp \<in> MountPoint ` set (List.map_filter (analyzeRecord os) rs)"
  then obtain r d where "r \<in> set rs" and "analyzeRecord os r = Some d" and "mp = MountPoint d"
    by (auto simp: List.map_filter_def)
  then show "mp \<in> (\<lambda>r. r ! 1) ` set rs"
    using analyzeRecord_MountPoint [of os r d] by auto
qed

lemma distinct_map_filter_MountPoint:
  "distinct (map (\<lambda>r. r ! 1) rs) \<Longrightarrow>
   distinct (map MountPoint (List.map_filter (analyzeRecord os) rs))"
proof (induction rs)
  case Nil
  show ?case by (simp add: List.map_filter_def)
next
  case (Cons r rs)
  have notin: "r ! 1 \<notin> MountPoint ` set (List.map_filter (analyzeRecord os) rs)"
    using Cons.prems set_map_filter_MountPoint [of os rs] by auto
  show ?case
  proof (cases "analyzeRecord os r")
    case None
    then show ?thesis using Cons by (simp add: map_filter_Cons)
  next
    case (Some d)
    then have "MountPoint d = r ! 1" by (rule analyzeRecord_MountPoint)
    then show ?thesis using Some Cons notin by (simp add: map_filter_Cons)
  qed
qed

text \<open>
  Claim C5. Whatever the mount table, one \<open>ScanDisks\<close> pass on a cleared registry
  leaves at most one disk per mount point: the mount points of the registry are pairwise
  distinct. Of the records that share a mount point only the first is considered: the
  registry is exactly what the analysis yields on the first record of each mount point,
  records of a virtual filesystem skipped.
\<close>

theorem ScanDisks_one_disk_per_mount_point:
  "disks (snd (ScanDisks os (Opened lines readError) (ClearDisks m)))
     = List.map_filter (analyzeRecord os) (firstPerMountPoint (mountRecords lines))
   \<and> distinct (map MountPoint (disks (snd (ScanDisks os table (ClearDisks m)))))"
proof
  have "snd (fold (scanStep os) lines ((\<lambda>_. False), []))
          = List.map_filter (analyzeRecord os) (firstPerMountPoint (mountRecords lines))"
    using fold_scanStep [of os lines "\<lambda>_. False" "[]"] by simp
  then show eq: "disks (snd (ScanDisks os (Opened lines readError) (ClearDisks m)))
     = List.map_filter (analyzeRecord os) (firstPerMountPoint (mountRecords lines))"
    by (simp add: ScanDisks_def ClearDisks_def scanSymlinks_def Let_def case_prod_beta)
  show "distinct (map MountPoint (disks (snd (ScanDisks os table (ClearDisks m)))))"
  proof (cases table)
    case OpenFails
    then show ?thesis by (simp add: ScanDisks_def ClearDisks_def)
  next
    case (Opened ls err)
    have "snd (fold (scanStep os) ls ((\<lambda>_. False), []))
          = List.map_filter (analyzeRecord os) (firstPerMountPoint (mountRecords ls))"
      using fold_scanStep [of os ls "\<lambda>_. False" "[]"] by simp
    then have "disks (snd (ScanDisks os table (ClearDisks m)))
          = List.map_filter (analyzeRecord os) (firstPerMountPoint (mountRecords ls))"
      using Opened
      by (simp add: ScanDisks_def ClearDisks_def scanSymlinks_def Let_def case_prod_beta)
    then show ?thesis
      using distinct_map_filter_MountPoint [OF distinct_firstPerMountPoint, of os "mountRecords ls"]
      by simp
  qed
qed

theorem ScanDisks_one_disk_per_mount_point_witness:
  "map (\<lambda>d. (Path d, MountPoint d))
     (disks (snd (ScanDisks exampleOS (Opened exampleMounts False) (ClearDisks NewManager))))
     = [(''/dev/sda1'', ''/''), (''/dev/sda2'', ''/boot'')]"
proof -
  have r: "mountRecords exampleMounts =
      [[''/dev/sda1'', ''/'', ''ext4'', ''rw'', ''0'', ''0''],
       [''/dev/sda2'', ''/boot'', ''ext4'', ''rw'', ''0'', ''0''],
       [''tmpfs'', ''/run'', ''tmpfs'', ''rw'', ''0'', ''0''],
       [''/dev/sdb1'', ''/'', ''ext4'', ''rw'', ''0'', ''0'']]"
    by (simp add: mountRecords_def exampleMounts_def Fields_def isSpace_def)
  show ?thesis
    using ScanDisks_one_disk_per_mount_point
      [of exampleOS exampleMounts False NewManager "Opened exampleMounts False"]
    by (simp add: r List.map_filter_def analyzeRecord_def analyzeDisk_def
        determineDiskType_def HasPrefix_def virtualFS_def exampleOS_def)
qed

section \<open>The write probe and the environment of the child\<close>

lemma runs_append: "runs (xs @ ys) = runs xs @ runs ys"
  by (induction xs rule: runs.induct) auto

lemma runs_sudoPause: "runs (sudoPause command) = []"
  by (simp add: sudoPause_def)

lemma ExecuteCommand_empty:
  "Fields command = [] \<Longrightarrow>
   ExecuteCommand w command targetDisk = (Some ErrEmptyCommand, sudoPause command)"
  by (simp add: ExecuteCommand_def sudoPause_def)

lemma ExecuteCommand_not_writable:
  assumes "\<not> CreateOK w (testFileName w (MountPoint d))" and "Fields command = name # arg"
  shows "ExecuteCommand w command (Some d) =
           (Some (ErrNoWritePermission (MountPoint d)),
            sudoPause command @ [CreateFile (testFileName w (MountPoint d)) False])"
  using assms by (simp add: ExecuteCommand_def targetCmd_def canWrite_def sudoPause_def Let_def)

lemma promptForSudo_events:
  "set (snd (promptForSudo w command targetDisk)) \<subseteq> insert Scanln (range Run)"
  by (auto simp: promptForSudo_def Let_def split: list.splits)

lemma ExecuteCommand_writable:
  assumes "CreateOK w (testFileName w (MountPoint d))" and "Fields command = name # arg"
  shows "\<exists>r evs2. set evs2 \<subseteq> insert Scanln (range Run)
           \<and> ExecuteCommand w command (Some d) =
               (r, sudoPause command
                   @ [CreateFile (testFileName w (MountPoint d)) True,
                      RemoveFile (testFileName w (MountPoint d))]
                   @ [Run (targetChild w name arg d)] @ evs2)"
proof -
  let ?tf = "testFileName w (MountPoint d)"
  let ?cmd = "targetChild w name arg d"
  let ?pre = "sudoPause command @ [CreateFile ?tf True, RemoveFile ?tf] @ [Run ?cmd]"
  have t: "targetCmd w (Command name arg) (Some d)
             = (Inr ?cmd, [CreateFile ?tf True, RemoveFile ?tf])"
    using assms(1) by (simp add: targetCmd_def canWrite_def Let_def Command_def targetChild_def)
  show ?thesis
  proof (cases "RunResult w 0 ?cmd")
    case None
    then have "ExecuteCommand w command (Some d) = (None, ?pre @ [])"
      using assms(2) t by (simp add: ExecuteCommand_def sudoPause_def)
    then show ?thesis by (metis append_assoc empty_set empty_subsetI)
  next
    case (Some err)
    show ?thesis
    proof (cases "isPermissionError command err")
      case False
      then have "ExecuteCommand w command (Some d) = (Some (ErrRun err), ?pre @ [])"
        using assms(2) t Some by (simp add: ExecuteCommand_def sudoPause_def)
      then show ?thesis by (metis append_assoc empty_set empty_subsetI)
    next
      case True
      obtain r evs2 where p: "promptForSudo w command (Some d) = (r, evs2)"
        by (cases "promptForSudo w command (Some d)")
      have "set evs2 \<subseteq> insert Scanln (range Run)"
        using promptForSudo_events [of w command "Some d"] p by simp
      moreover have "ExecuteCommand w command (Some d) = (r, ?pre @ evs2)"
        using assms(2) t Some True p by (simp add: ExecuteCommand_def sudoPause_def)
      ultimately show ?thesis by (metis append_assoc)
    qed
  qed
qed

text \<open>
  Claim C6. When \<open>ExecuteCommand\<close> is given a target disk and the write probe fails
  (the test file at the mount point cannot be created), it returns the write-permission
  error at once (the failed probe is the last thing it does) and runs no command. A mount
  point where the test file cannot be created never sees a command run, and for a command
  of at least one word the probe is made and fails there.
\<close>

theorem ExecuteCommand_write_probe_fails:
  "(CreateFile (testFileName w (MountPoint d)) False
      \<in> set (snd (ExecuteCommand w command (Some d))) \<longrightarrow>
      fst (ExecuteCommand w command (Some d)) = Some (ErrNoWritePermission (MountPoint d))
      \<and> runs (snd (ExecuteCommand w command (Some d))) = []
      \<and> last (snd (ExecuteCommand w command (Some d)))
          = CreateFile (testFileName w (MountPoint d)) False)
   \<and> (\<not> CreateOK w (testFileName w (MountPoint d)) \<longrightarrow>
        runs (snd (ExecuteCommand w command (Some d))) = []
        \<and> (Fields command \<noteq> [] \<longrightarrow>
             CreateFile (testFileName w (MountPoint d)) False
               \<in> set (snd (ExecuteCommand w command (Some d)))))"
proof (cases "Fields command")
  case Nil
  then have "ExecuteCommand w command (Some d) = (Some ErrEmptyCommand, sudoPause command)"
    by (rule ExecuteCommand_empty)
  then show ?thesis using Nil by (simp add: sudoPause_def)
next
  case (Cons name arg)
  show ?thesis
  proof (cases "CreateOK w (testFileName w (MountPoint d))")
    case False
    then have "ExecuteCommand w command (Some d) =
           (Some (ErrNoWritePermission (MountPoint d)),
            sudoPause command @ [CreateFile (testFileName w (MountPoint d)) False])"
      using Cons by (rule ExecuteCommand_not_writable)
    then show ?thesis by (simp add: runs_append runs_sudoPause)
  next
    case True
    then obtain r evs2 where e: "set evs2 \<subseteq> insert Scanln (range Run)"
      and x: "ExecuteCommand w command (Some d) =
               (r, sudoPause command
                   @ [CreateFile (testFileName w (MountPoint d)) True,
                      RemoveFile (testFileName w (MountPoint d))]
                   @ [Run (targetChild w name arg d)] @ evs2)"
      using ExecuteCommand_writable [OF True Cons] by blast
    have "CreateFile (testFileName w (MountPoint d)) False \<notin> set evs2"
      using e by auto
    then have "CreateFile (testFileName w (MountPoint d)) False
                 \<notin> set (snd (ExecuteCommand w command (Some d)))"
      by (simp add: x sudoPause_def)
    then show ?thesis using True by simp
  qed
qed

theorem ExecuteCommand_write_probe_fails_witness:
  "snd (ExecuteCommand readOnlyProc ''make install'' (Some (exampleDisk ''/dev/sdb1'' ''/mnt/a'' 9)))
     = [CreateFile ''/mnt/a/.checkpoint_test_4242'' False]
   \<and> fst (ExecuteCommand readOnlyProc ''make install'' (Some (exampleDisk ''/dev/sdb1'' ''/mnt/a'' 9)))
     = Some (ErrNoWritePermission ''/mnt/a'')
   \<and> runs (snd (ExecuteCommand readOnlyProc ''make install''
                   (Some (exampleDisk ''/dev/sdb1'' ''/mnt/a'' 9)))) = []"
proof -
  let ?d = "exampleDisk ''/dev/sdb1'' ''/mnt/a'' 9"
  have tf: "testFileName readOnlyProc (MountPoint ?d) = ''/mnt/a/.checkpoint_test_4242''"
    by (simp add: testFileName_def readOnlyProc_def exampleProc_def exampleDisk_def Sprintf_d_def)
  have mp: "MountPoint ?d = ''/mnt/a''"
    by (simp add: exampleDisk_def)
  have ev: "snd (ExecuteCommand readOnlyProc ''make install'' (Some ?d))
              = [CreateFile ''/mnt/a/.checkpoint_test_4242'' False]"
    by (simp add: ExecuteCommand_def targetCmd_def canWrite_def Let_def Fields_def isSpace_def
        HasPrefix_def readOnlyProc_def exampleProc_def exampleDisk_def testFileName_def
        Sprintf_d_def)
  then have "CreateFile (testFileName readOnlyProc (MountPoint ?d)) False
               \<in> set (snd (ExecuteCommand readOnlyProc ''make install'' (Some ?d)))"
    by (simp add: tf)
  then show ?thesis
    using ExecuteCommand_write_probe_fails [of readOnlyProc ?d "''make install''"] ev mp
    by simp
qed

text \<open>
  Claim C1, amended. When \<open>ExecuteCommand\<close> is given a target disk, the write probe
  succeeds and the command has at least one word, a child is run, and the first child has
  the mount point as working directory and, as environment, the inherited environment
  followed by \<open>PREFIX\<close> set to \<open>$HOME/.local\<close>, and \<open>DESTDIR\<close> and \<open>INSTALL_ROOT\<close>
  set to the mount point.
\<close>

theorem ExecuteCommand_target_child:
  assumes "CreateOK w (testFileName w (MountPoint d))" and "Fields command = name # arg"
  shows "runs (snd (ExecuteCommand w command (Some d))) \<noteq> []
         \<and> hd (runs (snd (ExecuteCommand w command (Some d))))
             = \<lparr>Args = name # arg, Dir = MountPoint d,
                Env = Some (Environ w
                            @ [''PREFIX='' @ Getenv w ''HOME'' @ ''/.local'',
                               ''DESTDIR='' @ MountPoint d,
                               ''INSTALL_ROOT='' @ MountPoint d])\<rparr>"
proof -
  obtain r evs2 where
    "ExecuteCommand w command (Some d) =
               (r, sudoPause command
                   @ [CreateFile (testFileName w (MountPoint d)) True,
                      RemoveFile (testFileName w (MountPoint d))]
                   @ [Run (targetChild w name arg d)] @ evs2)"
    using ExecuteCommand_writable [OF assms] by blast
  then show ?thesis
    by (simp add: runs_append runs_sudoPause targetChild_def)
qed

theorem ExecuteCommand_target_child_witness:
  "hd (runs (snd (ExecuteCommand exampleProc ''make install''
                    (Some (exampleDisk ''/dev/sdb1'' ''/mnt/a'' 9)))))
     = \<lparr>Args = [''make'', ''install''], Dir = ''/mnt/a'',
        Env = Some [''HOME=/home/user'', ''PATH=/usr/bin'', ''PREFIX=/home/user/.local'',
                    ''DESTDIR=/mnt/a'', ''INSTALL_ROOT=/mnt/a'']\<rparr>"
proof -
  let ?d = "exampleDisk ''/dev/sdb1'' ''/mnt/a'' 9"
  have ok: "CreateOK exampleProc (testFileName exampleProc (MountPoint ?d))"
    by (simp add: exampleProc_def)
  have fs: "Fields ''make install'' = ''make'' # [''install'']"
    by (simp add: Fields_def isSpace_def)
  show ?thesis
    using ExecuteCommand_target_child [OF ok fs]
    by (simp add: exampleProc_def exampleDisk_def)
qed

text \<open>
  Claim C1 as stated has all three variables point at the mount point. With home
  directory \<open>/home/user\<close> and target \<open>/mnt/a\<close> the child gets
  \<open>PREFIX=/home/user/.local\<close>, a path that is not at or below \<open>/mnt/a\<close>.
\<close>

theorem ExecuteCommand_prefix_counterexample:
  "runs (snd (ExecuteCommand exampleProc ''make install''
                (Some (exampleDisk ''/dev/sdb1'' ''/mnt/a'' 9))))
     = [\<lparr>Args = [''make'', ''install''], Dir = ''/mnt/a'',
         Env = Some [''HOME=/home/user'', ''PATH=/usr/bin'', ''PREFIX=/home/user/.local'',
                     ''DESTDIR=/mnt/a'', ''INSTALL_ROOT=/mnt/a'']\<rparr>]
   \<and> \<not> HasPrefix ''/home/user/.local'' ''/mnt/a''"
  by (simp add: ExecuteCommand_def targetCmd_def canWrite_def Command_def Let_def Fields_def
      isSpace_def HasPrefix_def exampleProc_def exampleDisk_def testFileName_def Sprintf_d_def)

section \<open>Rounding to binary64\<close>

lemma pow2_powi: "pow2 e = 2 powi e"
  by (simp add: pow2_def power_int_def power_inverse inverse_eq_divide power_one_over)

lemma pow2_pos: "0 < pow2 e"
  by (simp add: pow2_powi)

lemma pow2_add: "pow2 (a + b) = pow2 a * pow2 b"
  by (simp add: pow2_powi power_int_add)

lemma pow2_nat: "pow2 (int n) = 2 ^ n"
  by (simp add: pow2_def)

lemma pow2_mono: "a \<le> b \<Longrightarrow> pow2 a \<le> pow2 b"
  by (simp add: pow2_powi power_int_increasing)

lemma pow2_less: "pow2 a < pow2 b \<Longrightarrow> a < b"
  using pow2_mono [of b a] by (cases "a < b") auto

lemma normExp_stop: "1 \<le> m \<Longrightarrow> m < 2 \<Longrightarrow> normExp k m e = e"
  by (subst normExp.simps) simp

lemma normExp_up:
  "1 \<le> m \<Longrightarrow> m < 2 ^ Suc k \<Longrightarrow>
   \<exists>j\<le>k. normExp k m e = e + int j \<and> 2 ^ j \<le> m \<and> m < 2 ^ Suc j"
proof (induction k arbitrary: m e)
  case 0
  then have "normExp 0 m e = e" by (subst normExp.simps) simp
  then show ?case using 0 by simp
next
  case (Suc k)
  show ?case
  proof (cases "2 \<le> m")
    case True
    have step: "normExp (Suc k) m e = normExp k (m / 2) (e + 1)"
      using True by (subst normExp.simps) simp
    have "1 \<le> m / 2" and "m / 2 < 2 ^ Suc k"
      using True Suc.prems by simp_all
    then obtain j where j: "j \<le> k" "normExp k (m / 2) (e + 1) = e + 1 + int j"
      "2 ^ j \<le> m / 2" "m / 2 < 2 ^ Suc j"
      using Suc.IH [of "m / 2" "e + 1"] by blast
    have "Suc j \<le> Suc k" "normExp (Suc k) m e = e + int (Suc j)"
      "2 ^ Suc j \<le> m" "m < 2 ^ Suc (Suc j)"
      using j step by simp_all
    then show ?thesis by blast
  next
    case False
    then have "normExp (Suc k) m e = e"
      using Suc.prems(1) by (intro normExp_stop) simp_all
    then show ?thesis using False Suc.prems(1) by (intro exI [of _ 0]) simp
  qed
qed

lemma normExp_down:
  "0 < m \<Longrightarrow> m < 1 \<Longrightarrow> - 1022 \<le> e \<Longrightarrow> e + 1022 \<le> int k \<Longrightarrow>
   \<exists>j. normExp k m e = e - int j \<and> - 1022 \<le> e - int j \<and> m * 2 ^ j < 2
       \<and> (1 \<le> m * 2 ^ j \<or> e - int j = - 1022)"
proof (induction k arbitrary: m e)
  case 0
  then have "e = - 1022" by simp
  moreover have "normExp 0 m e = e" by (subst normExp.simps) simp
  ultimately show ?case using 0 by (intro exI [of _ 0]) simp
next
  case (Suc k)
  show ?case
  proof (cases "e = - 1022")
    case True
    then have "normExp (Suc k) m e = e"
      using Suc.prems by (subst normExp.simps) simp
    then show ?thesis using True Suc.prems by (intro exI [of _ 0]) simp
  next
    case False
    then have e: "- 1022 < e" using Suc.prems by simp
    have step: "normExp (Suc k) m e = normExp k (m * 2) (e - 1)"
      using e Suc.prems by (subst normExp.simps) simp
    show ?thesis
    proof (cases "m * 2 < 1")
      case True
      obtain j where j: "normExp k (m * 2) (e - 1) = e - 1 - int j"
        "- 1022 \<le> e - 1 - int j" "m * 2 * 2 ^ j < 2"
        "1 \<le> m * 2 * 2 ^ j \<or> e - 1 - int j = - 1022"
        using Suc.IH [of "m * 2" "e - 1"] True e Suc.prems by auto
      have "normExp (Suc k) m e = e - int (Suc j)" "- 1022 \<le> e - int (Suc j)"
        "m * 2 ^ Suc j < 2" "1 \<le> m * 2 ^ Suc j \<or> e - int (Suc j) = - 1022"
        using j step by (simp_all add: mult.assoc)
      then show ?thesis by blast
    next
      case False
      then have "normExp k (m * 2) (e - 1) = e - 1"
        using Suc.prems by (intro normExp_stop) simp_all
      then have "normExp (Suc k) m e = e - int 1" "- 1022 \<le> e - int 1"
        "m * 2 ^ 1 < 2" "1 \<le> m * 2 ^ 1 \<or> e - int 1 = - 1022"
        using step e False Suc.prems by simp_all
      then show ?thesis by blast
    qed
  qed
qed

lemma exponent_normal:
  assumes "0 < a" and "a < 2 ^ 1024"
  shows "- 1022 \<le> exponent a \<and> exponent a \<le> 1023 \<and> a < pow2 (exponent a + 1)
         \<and> (pow2 (exponent a) \<le> a \<or> exponent a = - 1022)"
proof (cases "1 \<le> a")
  case True
  have "a < 2 ^ Suc 1100"
  proof -
    have "(2::real) ^ 1024 \<le> 2 ^ Suc 1100" by (rule power_increasing) simp_all
    then show ?thesis using assms(2) by linarith
  qed
  then obtain j where j: "exponent a = int j" "2 ^ j \<le> a" "a < 2 ^ Suc j"
    using normExp_up [OF True, of 1100 0] by (auto simp: exponent_def)
  have lt: "(2::real) ^ j < 2 ^ 1024" using j(2) assms(2) by linarith
  have "j < 1024"
  proof (rule power_less_imp_less_exp)
    show "(1::real) < 2" by simp
    show "(2::real) ^ j < 2 ^ 1024" by (rule lt)
  qed
  moreover have "pow2 (int j) = 2 ^ j" "pow2 (int j + 1) = 2 ^ Suc j"
    using pow2_nat [of j] pow2_nat [of "Suc j"] by (simp_all add: add.commute)
  ultimately show ?thesis using j by simp
next
  case False
  then obtain j where j: "exponent a = - int j" "- 1022 \<le> - int j" "a * 2 ^ j < 2"
    "1 \<le> a * 2 ^ j \<or> - int j = - 1022"
    using normExp_down [of a 0 1100] assms(1) by (auto simp: exponent_def)
  have p: "pow2 (- int j) * 2 ^ j = 1"
    using pow2_add [of "- int j" "int j"] by (simp add: pow2_nat pow2_def)
  have q: "pow2 (- int j + 1) = 2 * pow2 (- int j)"
    using pow2_add [of 1 "- int j"] by (simp add: pow2_def add.commute)
  have pos: "0 < pow2 (- int j)" by (rule pow2_pos)
  have lt: "a < pow2 (- int j + 1)"
  proof -
    have "a * (pow2 (- int j) * 2 ^ j) < 2 * pow2 (- int j)"
      using j(3) pos by (simp add: mult.assoc mult.left_commute [of a])
    then have "a < 2 * pow2 (- int j)" by (simp only: p mult_1_right)
    then show ?thesis by (simp only: q)
  qed
  have ge: "1 \<le> a * 2 ^ j \<Longrightarrow> pow2 (- int j) \<le> a"
  proof -
    assume "1 \<le> a * 2 ^ j"
    then have "pow2 (- int j) * 1 \<le> pow2 (- int j) * (a * 2 ^ j)"
      using pos by (intro mult_left_mono) simp_all
    also have "\<dots> = a * (pow2 (- int j) * 2 ^ j)" by (simp add: mult.left_commute)
    finally show ?thesis by (simp add: p)
  qed
  show ?thesis using j lt ge by auto
qed

lemma roundEven_near:
  "r - 1 / 2 \<le> of_int (roundEven r) \<and> of_int (roundEven r) \<le> r + 1 / 2"
proof -
  have f: "of_int \<lfloor>r\<rfloor> \<le> r" "r < of_int \<lfloor>r\<rfloor> + 1"
    by linarith+
  consider (lo) "r - of_int \<lfloor>r\<rfloor> < 1 / 2" | (hi) "1 / 2 < r - of_int \<lfloor>r\<rfloor>"
    | (tie) "r - of_int \<lfloor>r\<rfloor> = 1 / 2"
    by linarith
  then show ?thesis
  proof cases
    case lo
    then have "roundEven r = \<lfloor>r\<rfloor>" by (simp add: roundEven_def Let_def)
    then have "of_int (roundEven r) = (of_int \<lfloor>r\<rfloor> :: real)" by simp
    then show ?thesis using f lo by linarith
  next
    case hi
    then have "roundEven r = \<lfloor>r\<rfloor> + 1" by (simp add: roundEven_def Let_def)
    then have "of_int (roundEven r) = (of_int \<lfloor>r\<rfloor> :: real) + 1" by simp
    then show ?thesis using f hi by linarith
  next
    case tie
    then have "roundEven r = \<lfloor>r\<rfloor> \<or> roundEven r = \<lfloor>r\<rfloor> + 1"
      by (simp add: roundEven_def Let_def)
    then have "of_int (roundEven r) = (of_int \<lfloor>r\<rfloor> :: real)
               \<or> of_int (roundEven r) = (of_int \<lfloor>r\<rfloor> :: real) + 1"
      by auto
    then show ?thesis using f tie by (elim disjE) linarith+
  qed
qed

lemma round64_near:
  assumes "0 < x" and "x < 2 ^ 1000"
  shows "\<exists>y. round64 x = Finite y
           \<and> x - pow2 (exponent x - 53) \<le> y \<and> y \<le> x + pow2 (exponent x - 53)"
proof -
  define u where "u = pow2 (exponent x - 52)"
  define y where "y = of_int (roundEven (x / u)) * u"
  have big: "(2::real) ^ 1000 \<le> 2 ^ 1024" by (rule power_increasing) simp_all
  then have x: "x < 2 ^ 1024" using assms(2) by linarith
  have e: "exponent x \<le> 1023" using exponent_normal [OF assms(1) x] by simp
  have u: "0 < u" unfolding u_def by (rule pow2_pos)
  have half: "pow2 (exponent x - 53) = u / 2"
    using pow2_add [of "exponent x - 53" 1] by (simp add: u_def pow2_def)
  have "x / u - 1 / 2 \<le> of_int (roundEven (x / u))"
    and "of_int (roundEven (x / u)) \<le> x / u + 1 / 2"
    using roundEven_near [of "x / u"] by simp_all
  then have "(x / u - 1 / 2) * u \<le> y" and "y \<le> (x / u + 1 / 2) * u"
    unfolding y_def using u by (simp_all add: mult_right_mono)
  then have near: "x - u / 2 \<le> y" "y \<le> x + u / 2"
    using u by (simp_all add: algebra_simps)
  have "pow2 (exponent x - 53) \<le> pow2 970"
    using e by (intro pow2_mono) simp
  also have "pow2 970 = 2 ^ 970" using pow2_nat [of 970] by simp
  finally have "u / 2 \<le> 2 ^ 970" using half by simp
  moreover have "(2::real) ^ 1000 + 2 ^ 970 < 2 ^ 1024" by simp
  ultimately have "y < 2 ^ 1024" using near(2) assms(2) by linarith
  then have "round64 x = Finite y"
    using assms(1) x by (simp add: round64_def Let_def u_def y_def)
  then show ?thesis using near half by auto
qed

lemma round64_relative:
  assumes "pow2 (- 1022) \<le> x" and "x < 2 ^ 1000"
  shows "\<exists>y. round64 x = Finite y \<and> x * (1 - eps64) \<le> y \<and> y \<le> x * (1 + eps64)"
proof -
  have pos: "0 < x" using assms(1) pow2_pos [of "- 1022"] by linarith
  have big: "(2::real) ^ 1000 \<le> 2 ^ 1024" by (rule power_increasing) simp_all
  then have x: "x < 2 ^ 1024" using assms(2) by linarith
  have "pow2 (exponent x) \<le> x"
    using exponent_normal [OF pos x] assms(1) by auto
  moreover have "pow2 (exponent x - 53) = pow2 (exponent x) * eps64"
    using pow2_add [of "exponent x" "- 53"] by (simp add: pow2_def eps64_def)
  moreover have "0 \<le> eps64" by (simp add: eps64_def)
  ultimately have "pow2 (exponent x - 53) \<le> x * eps64"
    by (simp add: mult_right_mono)
  then show ?thesis
    using round64_near [OF pos assms(2)] by (auto simp: algebra_simps) 
qed

lemma round64_zero: "round64 0 = Finite 0"
  by (simp add: round64_def)

lemma round64_between:
  assumes "lo \<le> x" and "x \<le> hi" and "1 / 2 ^ 100 \<le> lo" and "hi \<le> 2 ^ 100"
  shows "\<exists>y. round64 x = Finite y \<and> lo * (1 - eps64) \<le> y \<and> y \<le> hi * (1 + eps64)"
proof -
  have "pow2 (- 1022) \<le> pow2 (- 100)" by (rule pow2_mono) simp
  also have "pow2 (- 100) = 1 / 2 ^ 100" by (simp add: pow2_def)
  finally have small: "pow2 (- 1022) \<le> x" using assms(1,3) by linarith
  have "(2::real) ^ 100 < 2 ^ 1000" by (rule power_strict_increasing) simp_all
  then have "x < 2 ^ 1000" using assms(2,4) by linarith
  then obtain y where y: "round64 x = Finite y" "x * (1 - eps64) \<le> y" "y \<le> x * (1 + eps64)"
    using round64_relative [OF small] by blast
  have e: "0 \<le> 1 - eps64" "0 \<le> 1 + eps64" by (simp_all add: eps64_def)
  have "lo * (1 - eps64) \<le> x * (1 - eps64)" using assms(1) e(1) by (rule mult_right_mono)
  moreover have "x * (1 + eps64) \<le> hi * (1 + eps64)" using assms(2) e(2) by (rule mult_right_mono)
  ultimately show ?thesis using y by force
qed

lemma uint64_real_bounds:
  fixes w :: uint64
  shows "0 \<le> real_of_int (uint w)" and "real_of_int (uint w) \<le> 2 ^ 64"
    and "w \<noteq> 0 \<Longrightarrow> 1 \<le> real_of_int (uint w)"
proof -
  have "0 \<le> uint w" by simp
  then show "0 \<le> real_of_int (uint w)" by (rule of_int_nonneg)
  have "uint w < 2 ^ 64" using uint_lt2p [of w] by simp
  then have "uint w \<le> 2 ^ 64" by simp
  then have "real_of_int (uint w) \<le> real_of_int (2 ^ 64)" by (simp only: of_int_le_iff)
  then show "real_of_int (uint w) \<le> 2 ^ 64" by simp
  assume "w \<noteq> 0"
  then have "uint w \<noteq> 0" by (simp add: uint_0_iff)
  moreover have "0 \<le> uint w" by simp
  ultimately have "1 \<le> uint w" by linarith
  then have "real_of_int 1 \<le> real_of_int (uint w)" by (simp only: of_int_le_iff)
  then show "1 \<le> real_of_int (uint w)" by simp
qed

lemma float64_of_uint64_zero: "float64_of_uint64 0 = Finite 0"
  by (simp add: float64_of_uint64_def round64_zero)

lemma float64_of_uint64_nonzero:
  assumes "w \<noteq> 0"
  shows "\<exists>y. float64_of_uint64 w = Finite y
           \<and> real_of_int (uint w) * (1 - eps64) \<le> y \<and> y \<le> real_of_int (uint w) * (1 + eps64)"
proof -
  have "1 / 2 ^ 100 \<le> real_of_int (uint w)"
  proof -
    have "(1::real) / 2 ^ 100 \<le> 1" by simp
    then show ?thesis using uint64_real_bounds(3) [OF assms] by linarith
  qed
  moreover have "real_of_int (uint w) \<le> 2 ^ 100"
  proof -
    have "(2::real) ^ 64 \<le> 2 ^ 100" by (rule power_increasing) simp_all
    then show ?thesis using uint64_real_bounds(2) [of w] by linarith
  qed
  ultimately show ?thesis
    unfolding float64_of_uint64_def
    by (intro round64_between) simp_all
qed

lemma eps64_chain:
  "1 - 1 / 2 ^ 50 \<le> (1 - eps64) * (1 - eps64) * (1 - eps64) / (1 + eps64)"
  "(1 + eps64) * (1 + eps64) * (1 + eps64) / (1 - eps64) \<le> 1 + 1 / 2 ^ 50"
  by (simp_all add: eps64_def)

section \<open>The used percentage\<close>

text \<open>
  Claim C2, amended. When the total size is not zero the used percentage of the summary
  is \<open>used/size*100\<close> computed in \<open>float64\<close>: a finite number within a relative
  distance of \<open>2 ^ -50\<close> of the exact quotient (the two conversions, the division and the
  multiplication each round to nearest). \<open>GetSummary\<close> has no guard for a total size of
  zero: the value is then NaN when the total used is zero too, and positive infinity
  otherwise.
\<close>

theorem usedPercent_unguarded:
  "(StatsTotalSize s \<noteq> 0 \<longrightarrow>
      (\<exists>p. usedPercent s = Finite p
         \<and> real_of_int (uint (StatsTotalUsed s)) / real_of_int (uint (StatsTotalSize s)) * 100
             * (1 - 1 / 2 ^ 50) \<le> p
         \<and> p \<le> real_of_int (uint (StatsTotalUsed s)) / real_of_int (uint (StatsTotalSize s)) * 100
             * (1 + 1 / 2 ^ 50)))
   \<and> (StatsTotalSize s = 0 \<longrightarrow>
        usedPercent s = (if StatsTotalUsed s = 0 then NaN else PosInf))"
proof (intro conjI impI)
  assume size0: "StatsTotalSize s = 0"
  show "usedPercent s = (if StatsTotalUsed s = 0 then NaN else PosInf)"
  proof (cases "StatsTotalUsed s = 0")
    case True
    then show ?thesis
      using size0 by (simp add: usedPercent_def float64_of_uint64_zero)
  next
    case False
    then obtain u where u: "float64_of_uint64 (StatsTotalUsed s) = Finite u"
      and lo: "real_of_int (uint (StatsTotalUsed s)) * (1 - eps64) \<le> u"
      using float64_of_uint64_nonzero by blast
    have "0 < real_of_int (uint (StatsTotalUsed s)) * (1 - eps64)"
      using uint64_real_bounds(3) [OF False] by (simp add: eps64_def)
    then have "0 < u" using lo by linarith
    then show ?thesis
      using False size0 u by (simp add: usedPercent_def float64_of_uint64_zero signedInf_def)
  qed
next
  assume size: "StatsTotalSize s \<noteq> 0"
  define U where "U = real_of_int (uint (StatsTotalUsed s))"
  define S where "S = real_of_int (uint (StatsTotalSize s))"
  define k where "k = 1 - eps64"
  define K where "K = 1 + eps64"
  have k: "0 < k" "1 / 2 \<le> k" "k \<le> 1" and K: "0 < K" "1 \<le> K" "K \<le> 2"
    by (simp_all add: k_def K_def eps64_def)
  have S: "1 \<le> S" "S \<le> 2 ^ 64"
    unfolding S_def using uint64_real_bounds(3) [OF size] uint64_real_bounds(2) by simp_all
  have U: "0 \<le> U" "U \<le> 2 ^ 64"
    unfolding U_def using uint64_real_bounds(1,2) by simp_all
  obtain z where z: "float64_of_uint64 (StatsTotalSize s) = Finite z"
    and zb: "S * k \<le> z" "z \<le> S * K"
    using float64_of_uint64_nonzero [OF size] unfolding S_def k_def K_def by blast
  have Sk: "1 / 2 \<le> S * k"
  proof -
    have "1 * (1 / 2) \<le> S * k" using S(1) k(2) by (intro mult_mono) simp_all
    then show ?thesis by simp
  qed
  have zpos: "0 < z" using Sk zb(1) by linarith
  have SK: "S * K \<le> 2 ^ 65"
  proof -
    have "S * K \<le> 2 ^ 64 * 2" using S K by (intro mult_mono) simp_all
    then show ?thesis by simp
  qed
  show "\<exists>p. usedPercent s = Finite p
         \<and> real_of_int (uint (StatsTotalUsed s)) / real_of_int (uint (StatsTotalSize s)) * 100
             * (1 - 1 / 2 ^ 50) \<le> p
         \<and> p \<le> real_of_int (uint (StatsTotalUsed s)) / real_of_int (uint (StatsTotalSize s)) * 100
             * (1 + 1 / 2 ^ 50)"
  proof (cases "StatsTotalUsed s = 0")
    case True
    have "usedPercent s = Finite 0"
      using True z zpos by (simp add: usedPercent_def float64_of_uint64_zero round64_zero)
    then show ?thesis using True by simp
  next
    case False
    obtain u where u: "float64_of_uint64 (StatsTotalUsed s) = Finite u"
      and ub: "U * k \<le> u" "u \<le> U * K"
      using float64_of_uint64_nonzero [OF False] unfolding U_def k_def K_def by blast
    have U1: "1 \<le> U" unfolding U_def by (rule uint64_real_bounds(3) [OF False])
    have Uk: "1 / 2 \<le> U * k"
    proof -
      have "1 * (1 / 2) \<le> U * k" using U1 k(2) by (intro mult_mono) simp_all
      then show ?thesis by simp
    qed
    have UK: "U * K \<le> 2 ^ 65"
    proof -
      have "U * K \<le> 2 ^ 64 * 2" using U K by (intro mult_mono) simp_all
      then show ?thesis by simp
    qed
    have upos: "0 \<le> u" using Uk ub(1) by linarith
    define lo1 where "lo1 = (U * k) / (S * K)"
    define hi1 where "hi1 = (U * K) / (S * k)"
    have r: "lo1 \<le> u / z" "u / z \<le> hi1"
      unfolding lo1_def hi1_def
      using ub zb zpos upos Uk Sk by (auto intro!: frac_le)
    have lo1: "1 / 2 ^ 66 \<le> lo1"
    proof -
      have "(1 / 2) / 2 ^ 65 \<le> (U * k) / (S * K)"
        using Uk SK S K by (intro frac_le) simp_all
      then show ?thesis by (simp add: lo1_def)
    qed
    have hi1: "hi1 \<le> 2 ^ 66"
    proof -
      have "(U * K) / (S * k) \<le> 2 ^ 65 / (1 / 2)"
        using UK Sk U K by (intro frac_le) simp_all
      then show ?thesis by (simp add: hi1_def)
    qed
    have "\<exists>q. round64 (u / z) = Finite q \<and> lo1 * (1 - eps64) \<le> q \<and> q \<le> hi1 * (1 + eps64)"
    proof (rule round64_between [OF r])
      have "(1::real) / 2 ^ 100 \<le> 1 / 2 ^ 66" by simp
      then show "1 / 2 ^ 100 \<le> lo1" using lo1 by linarith
      have "(2::real) ^ 66 \<le> 2 ^ 100" by simp
      then show "hi1 \<le> 2 ^ 100" using hi1 by linarith
    qed
    then obtain q where q: "round64 (u / z) = Finite q" and qb: "lo1 * k \<le> q" "q \<le> hi1 * K"
      unfolding k_def K_def by blast
    have lo2: "1 / 2 ^ 67 \<le> lo1 * k"
    proof -
      have "(1 / 2 ^ 66) * (1 / 2) \<le> lo1 * k" using lo1 k by (intro mult_mono) simp_all
      then show ?thesis by simp
    qed
    have hi2: "hi1 * K \<le> 2 ^ 67"
    proof -
      have "0 \<le> hi1" using r upos zpos by (meson divide_nonneg_pos order_trans)
      then have "hi1 * K \<le> 2 ^ 66 * 2" using hi1 K by (intro mult_mono) simp_all
      then show ?thesis by simp
    qed
    have "\<exists>p. round64 (q * 100) = Finite p
            \<and> (lo1 * k * 100) * (1 - eps64) \<le> p \<and> p \<le> (hi1 * K * 100) * (1 + eps64)"
    proof (rule round64_between)
      show "lo1 * k * 100 \<le> q * 100" using qb(1) by simp
      show "q * 100 \<le> hi1 * K * 100" using qb(2) by simp
      have "(1::real) / 2 ^ 100 \<le> 1 / 2 ^ 67 * 100" by simp
      then show "1 / 2 ^ 100 \<le> lo1 * k * 100" using lo2 by linarith
      have "(2::real) ^ 67 * 100 \<le> 2 ^ 100" by simp
      then show "hi1 * K * 100 \<le> 2 ^ 100" using hi2 by linarith
    qed
    then obtain p where p: "round64 (q * 100) = Finite p"
      and pb: "lo1 * k * 100 * k \<le> p" "p \<le> hi1 * K * 100 * K"
      unfolding k_def K_def by blast
    have val: "usedPercent s = Finite p"
      using u z q p zpos by (simp add: usedPercent_def)
    have exact: "0 \<le> U / S * 100" using U S by simp
    have "lo1 * k * 100 * k = (U / S * 100) * (k * k * k / K)"
      using S K k by (simp add: lo1_def field_simps)
    moreover have "(U / S * 100) * (1 - 1 / 2 ^ 50) \<le> (U / S * 100) * (k * k * k / K)"
      using exact eps64_chain(1) by (intro mult_left_mono) (simp_all add: k_def K_def)
    ultimately have low: "(U / S * 100) * (1 - 1 / 2 ^ 50) \<le> p" using pb(1) by linarith
    have "hi1 * K * 100 * K = (U / S * 100) * (K * K * K / k)"
      using S K k by (simp add: hi1_def field_simps)
    moreover have "(U / S * 100) * (K * K * K / k) \<le> (U / S * 100) * (1 + 1 / 2 ^ 50)"
      using exact eps64_chain(2) by (intro mult_left_mono) (simp_all add: k_def K_def)
    ultimately have high: "p \<le> (U / S * 100) * (1 + 1 / 2 ^ 50)" using pb(2) by linarith
    show ?thesis using val low high unfolding U_def S_def by blast
  qed
qed

theorem usedPercent_unguarded_witness:
  "usedPercent (GetStats exampleManager) = Finite 60
   \<and> usedPercent (exampleStats 1 3) = Finite (4691249611844266 / 2 ^ 47)
   \<and> usedPercent (exampleStats 9007199254740992 9007199254740993) = Finite 100
   \<and> usedPercent (GetStats NewManager) = NaN
   \<and> usedPercent (exampleStats 5 0) = PosInf"
proof -
  have s: "StatsTotalSize (GetStats exampleManager) = 12288000000"
    and u: "StatsTotalUsed (GetStats exampleManager) = 7372800000"
    and z: "StatsTotalSize (GetStats NewManager) = 0"
    and y: "StatsTotalUsed (GetStats NewManager) = 0"
    by (simp_all add: GetStats_def NewManager_def exampleManager_def exampleDisk_def
        statsStep_def Let_def)
  have a: "usedPercent (GetStats exampleManager) = Finite 60"
    by (simp add: usedPercent_def s u float64_of_uint64_def round64_def exponent_def
        normExp.simps pow2_def roundEven_def Let_def)
  have b: "usedPercent (exampleStats 1 3) = Finite (4691249611844266 / 2 ^ 47)"
    and c: "usedPercent (exampleStats 9007199254740992 9007199254740993) = Finite 100"
    by (simp_all add: usedPercent_def exampleStats_def float64_of_uint64_def round64_def
        exponent_def normExp.simps pow2_def roundEven_def Let_def)
  have e: "StatsTotalSize (exampleStats 5 0) = 0" "StatsTotalUsed (exampleStats 5 0) = 5"
    by (simp_all add: exampleStats_def)
  show ?thesis
    using usedPercent_unguarded [of "GetStats exampleManager"]
      usedPercent_unguarded [of "GetStats NewManager"]
      usedPercent_unguarded [of "exampleStats 5 0"]
    by (simp add: a b c z y e)
qed

text \<open>
  Claim C2 as stated has a total size of zero report 0%. The statistics of an empty
  registry have total size zero, and their percentage is NaN.
\<close>

theorem usedPercent_zero_size_counterexample:
  "StatsTotalSize (GetStats NewManager) = 0
   \<and> usedPercent (GetStats NewManager) = NaN
   \<and> usedPercent (GetStats NewManager) \<noteq> Finite 0"
  by (simp add: usedPercent_def float64_of_uint64_def round64_def GetStats_def NewManager_def)

end
